theory Spec2Isabelle
  imports Main "HOL-Library.AList"
begin

section \<open>JavaScript values and strings\<close>

text \<open>
  A field of a JavaScript object that the code declares optional can be absent
  (\<open>undefined\<close>), \<open>null\<close>, or hold a value. The code tells the three apart
  (\<open>leaguePoints !== undefined && leaguePoints !== null\<close>), so the model does too.
\<close>

datatype 'a js = Undefined | Null | Val 'a

text \<open>Truthiness of an optional string: absent, \<open>null\<close> and the empty string are falsy.\<close>

fun truthy :: "string js \<Rightarrow> bool" where
  "truthy (Val s) = (s \<noteq> [])"
| "truthy _ = False"

text \<open>
  Strings are byte strings. \<open>toLowerCase\<close> and \<open>toUpperCase\<close> are modelled on the ASCII
  letters (user names, tier names and region codes are ASCII); every other byte is kept.
\<close>

definition toUpperCase_char :: "char \<Rightarrow> char" where
  "toUpperCase_char c =
     (let n = (of_char c :: nat) in if 97 \<le> n \<and> n \<le> 122 then char_of (n - 32) else c)"

definition toLowerCase_char :: "char \<Rightarrow> char" where
  "toLowerCase_char c =
     (let n = (of_char c :: nat) in if 65 \<le> n \<and> n \<le> 90 then char_of (n + 32) else c)"

definition toUpperCase :: "string \<Rightarrow> string" where
  "toUpperCase s = map toUpperCase_char s"

definition toLowerCase :: "string \<Rightarrow> string" where
  "toLowerCase s = map toLowerCase_char s"

text \<open>
  \<open>`${n}`\<close> for a number: league points are integers (spec, data model), and the text
  of an integer is its decimal numeral, with a minus sign when negative.
\<close>

fun string_of_nat :: "nat \<Rightarrow> string" where
  "string_of_nat n =
     (if n < 10 then [char_of (48 + n)]
      else string_of_nat (n div 10) @ [char_of (48 + n mod 10)])"

declare string_of_nat.simps [simp del]

definition number_toString :: "int \<Rightarrow> string" where
  "number_toString i =
     (if i < 0 then CHR ''-'' # string_of_nat (nat (- i)) else string_of_nat (nat i))"

text \<open>
  \<open>s.split(sep)\<close> for a one-character separator: the pieces between all occurrences of
  the separator, never an empty array.
\<close>

fun split :: "char \<Rightarrow> string \<Rightarrow> string list" where
  "split sep [] = [[]]"
| "split sep (c # cs) =
     (let r = split sep cs in if c = sep then [] # r else (c # hd r) # tl r)"

text \<open>
  \<open>encodeURIComponent\<close>: letters, digits and \<open>- _ . ! ~ * ' ( )\<close> are kept, every other
  byte of the UTF-8 text becomes \<open>%XX\<close> with upper-case hexadecimal digits.
\<close>

definition uri_unreserved :: "char \<Rightarrow> bool" where
  "uri_unreserved c =
     (c \<in> set (''ABCDEFGHIJKLMNOPQRSTUVWXYZabcdefghijklmnopqrstuvwxyz0123456789-_.!~*()''
               @ [CHR 0x27]))"

definition hex_digit :: "nat \<Rightarrow> char" where
  "hex_digit n = ''0123456789ABCDEF'' ! (n mod 16)"

definition encodeURIComponent :: "string \<Rightarrow> string" where
  "encodeURIComponent s =
     concat (map (\<lambda>c. if uri_unreserved c then [c]
                       else [CHR ''%'', hex_digit (of_char c div 16), hex_digit (of_char c mod 16)]) s)"

section \<open>Constants\<close>

definition API_BASE_URL :: string where
  "API_BASE_URL = ''https://eloward-ranks.unleashai.workers.dev/api/ranks/lol''"

definition CDN_BASE_URL :: string where
  "CDN_BASE_URL = ''https://eloward-cdn.unleashai.workers.dev/lol''"

definition DEFAULT_CACHE_DURATION :: int where
  "DEFAULT_CACHE_DURATION = 60 * 60 * 1000"

definition NEGATIVE_CACHE_DURATION :: int where
  "NEGATIVE_CACHE_DURATION = 15 * 60 * 1000"

definition MAX_CACHE_SIZE :: nat where
  "MAX_CACHE_SIZE = 500"

definition BADGE_CACHE_VERSION :: string where
  "BADGE_CACHE_VERSION = ''3''"

definition RANK_TIERS :: "string list" where
  "RANK_TIERS = [''iron'', ''bronze'', ''silver'', ''gold'', ''platinum'', ''emerald'',
                 ''diamond'', ''master'', ''grandmaster'', ''challenger'', ''unranked'']"

section \<open>Data\<close>

text \<open>\<open>interface EloWardBadge\<close>; the field \<open>id\<close> is \<open>id_badge\<close> here.\<close>

record EloWardBadge =
  id_badge :: string
  tier :: string
  division :: "string js"
  imageUrl :: string
  animated :: bool
  summonerName :: "string js"
  region :: "string js"
  leaguePoints :: "int js"

text \<open>
  What \<open>data.rank_tier\<close> can hold once \<open>response.json()\<close> has parsed the body
  (\<open>data\<close> has type \<open>any\<close>): absent, \<open>null\<close>, a boolean, a number, a string, or an
  array or object (\<open>JOther\<close>). The code tests it for truthiness and calls
  \<open>toLowerCase\<close> on it, which only a string has.
\<close>

datatype jsvalue = JUndefined | JNull | JBool bool | JNumber int | JString string | JOther

fun falsy :: "jsvalue \<Rightarrow> bool" where
  "falsy JUndefined = True"
| "falsy JNull = True"
| "falsy (JBool b) = (\<not> b)"
| "falsy (JNumber n) = (n = 0)"
| "falsy (JString s) = (s = [])"
| "falsy JOther = False"

text \<open>
  The parsed body, seen through the properties the code reads. \<open>rank_tier\<close> is
  inspected by the code and is any value; the other properties are only copied into an
  \<open>EloWardRankData\<close> and have the types that interface declares for them.
\<close>

record RankResponseBody =
  rank_tier :: jsvalue
  rank_division :: "string js"
  lp :: "int js"
  riot_id :: "string js"
  region :: "string js"
  animate_badge :: "bool js"

text \<open>
  The outcome of \<open>await response.json()\<close>: the promise rejects (the body is not JSON,
  or the timeout fires while it is read), the body is the JSON \<open>null\<close> (reading a
  property of it throws), or it is another JSON value.
\<close>

datatype json_outcome = JsonRejected | JsonNull | JsonValue RankResponseBody

text \<open>
  \<open>interface EloWardRankData\<close>. The interface declares \<open>tier\<close> a string, the code
  tests it for absence (\<open>!rankData?.tier\<close>), so it is optional here as well.
\<close>

record EloWardRankData =
  tier :: "string js"
  division :: "string js"
  leaguePoints :: "int js"
  summonerName :: "string js"
  region :: "string js"
  animate_badge :: "bool js"

text \<open>\<open>interface CacheEntry\<close>: \<open>data = None\<close> is the \<open>null\<close> of a negative entry.\<close>

record CacheEntry =
  data :: "EloWardRankData option"
  timestamp :: int

text \<open>
  \<open>class LRUCache\<close>. A JavaScript \<open>Map\<close> iterates in insertion order: it is an
  association list with distinct keys, oldest insertion first. \<open>Map.set\<close> replaces the
  value of a key in place and appends a new key at the end (\<open>AList.update\<close>);
  \<open>Map.delete\<close> removes the key (\<open>AList.delete\<close>); \<open>Map.get\<close> is \<open>map_of\<close>.
\<close>

record LRUCache =
  cache :: "(string \<times> CacheEntry) list"
  maxSize :: nat

definition LRUCache_new :: "nat \<Rightarrow> LRUCache" where
  "LRUCache_new n = \<lparr> cache = [], maxSize = n \<rparr>"

text \<open>
  \<open>get\<close> returns \<open>undefined\<close> (not in cache or expired), \<open>null\<close> (negative entry) or
  the data; \<open>now\<close> is the value of \<open>Date.now()\<close>.
\<close>

definition LRUCache_get :: "LRUCache \<Rightarrow> string \<Rightarrow> int \<Rightarrow> EloWardRankData js \<times> LRUCache" where
  "LRUCache_get c username now =
     (let key = toLowerCase username in
      case map_of (cache c) key of
        None \<Rightarrow> (Undefined, c)
      | Some entry \<Rightarrow>
          let cacheDuration =
                (if data entry = None then NEGATIVE_CACHE_DURATION else DEFAULT_CACHE_DURATION)
          in if now - timestamp entry > cacheDuration
             then (Undefined, c\<lparr>cache := AList.delete key (cache c)\<rparr>)
             else (case data entry of None \<Rightarrow> Null | Some d \<Rightarrow> Val d,
                   c\<lparr>cache := AList.update key entry (AList.delete key (cache c))\<rparr>))"

text \<open>
  \<open>set\<close>: \<open>this.cache.keys().next().value\<close> is the first key, \<open>undefined\<close> for an empty
  map; \<open>if (firstKey)\<close> is false for \<open>undefined\<close> and for the empty string.
\<close>

definition LRUCache_set :: "LRUCache \<Rightarrow> string \<Rightarrow> EloWardRankData option \<Rightarrow> int \<Rightarrow> LRUCache" where
  "LRUCache_set c username d now =
     (let key = toLowerCase username;
          m = (if length (cache c) \<ge> maxSize c \<and> map_of (cache c) key = None
               then (case cache c of
                       [] \<Rightarrow> cache c
                     | (firstKey, _) # _ \<Rightarrow>
                         if firstKey \<noteq> [] then AList.delete firstKey (cache c) else cache c)
               else cache c)
      in c\<lparr>cache := AList.update key \<lparr> data = d, timestamp = now \<rparr> m\<rparr>)"

definition LRUCache_clear :: "LRUCache \<Rightarrow> LRUCache" where
  "LRUCache_clear c = c\<lparr>cache := []\<rparr>"

definition LRUCache_size :: "LRUCache \<Rightarrow> nat" where
  "LRUCache_size c = length (cache c)"

section \<open>Badge projector and formatters\<close>

definition getImageUrl :: "string \<Rightarrow> bool \<Rightarrow> string" where
  "getImageUrl t isAnimated =
     (let extension = (if isAnimated then ''.webp'' else ''.png'');
          suffix = (if isAnimated then ''_premium'' else '''')
      in CDN_BASE_URL @ ''/'' @ t @ suffix @ extension @ ''?v='' @ BADGE_CACHE_VERSION)"

text \<open>\<open>Boolean(rankData.animate_badge)\<close> for an optional boolean.\<close>

fun Boolean :: "bool js \<Rightarrow> bool" where
  "Boolean (Val b) = b"
| "Boolean _ = False"

definition getRankBadge :: "EloWardRankData \<Rightarrow> EloWardBadge option" where
  "getRankBadge rankData =
     (case tier rankData of
        Val t \<Rightarrow>
          if t = [] then None
          else let tier' = toLowerCase t in
            if tier' \<notin> set RANK_TIERS then None
            else let shouldAnimate = Boolean (animate_badge rankData) in
              Some \<lparr> id_badge = ''eloward-'' @ tier' @
                                  (case division rankData of
                                     Val d \<Rightarrow> if d \<noteq> [] then ''-'' @ d else ''''
                                   | _ \<Rightarrow> ''''),
                     EloWardBadge.tier = toUpperCase t,
                     EloWardBadge.division = division rankData,
                     imageUrl = getImageUrl tier' shouldAnimate,
                     animated = shouldAnimate,
                     EloWardBadge.summonerName = summonerName rankData,
                     EloWardBadge.region = region rankData,
                     EloWardBadge.leaguePoints = leaguePoints rankData \<rparr>
      | _ \<Rightarrow> None)"

definition formatRankText :: "EloWardRankData \<Rightarrow> string" where
  "formatRankText rankData =
     (case tier rankData of
        Val t \<Rightarrow>
          if t = [] then ''UNRANKED''
          else let tierUpper = toUpperCase t in
            if tierUpper = ''UNRANKED'' then ''UNRANKED''
            else
              (let rankText1 =
                     (if truthy (division rankData)
                         \<and> tierUpper \<notin> set [''MASTER'', ''GRANDMASTER'', ''CHALLENGER'']
                      then tierUpper @ '' '' @ (case division rankData of Val d \<Rightarrow> d | _ \<Rightarrow> '''')
                      else tierUpper)
               in (case leaguePoints rankData of
                     Val points \<Rightarrow> rankText1 @ '' - '' @ number_toString points @ '' LP''
                   | _ \<Rightarrow> rankText1))
      | _ \<Rightarrow> ''UNRANKED'')"

text \<open>
  \<open>regionMapping\<close> of \<open>getOpGGUrl\<close>. \<open>regionMapping[k]\<close> reads an object literal: besides
  its own keys it finds what every object inherits from \<open>Object.prototype\<close>. A key is
  lower-cased before the lookup, and the inherited names written in lower case only are
  \<open>constructor\<close> (the function \<open>Object\<close>, a truthy value whose text in a template is
  engine-defined and given by \<open>objectText\<close>) and \<open>__proto__\<close> (the prototype object, text
  \<open>[object Object]\<close>). The result is the text the value has in the URL template.
\<close>

definition regionMapping :: "(string \<times> string) list" where
  "regionMapping =
     [(''na1'', ''na''), (''euw1'', ''euw''), (''eun1'', ''eune''), (''kr'', ''kr''),
      (''br1'', ''br''), (''jp1'', ''jp''), (''la1'', ''lan''), (''la2'', ''las''),
      (''oc1'', ''oce''), (''tr1'', ''tr''), (''ru'', ''ru''), (''ph2'', ''ph''),
      (''sg2'', ''sg''), (''th2'', ''th''), (''tw2'', ''tw''), (''vn2'', ''vn''),
      (''me1'', ''me'')]"

definition regionMapping_get :: "string \<Rightarrow> string \<Rightarrow> string option" where
  "regionMapping_get objectText k =
     (case map_of regionMapping k of
        Some v \<Rightarrow> Some v
      | None \<Rightarrow>
          if k = ''constructor'' then Some objectText
          else if k = ''__proto__'' then Some ''[object Object]''
          else None)"

text \<open>The display table of \<open>getRegionDisplay\<close>, a different table with different values.\<close>

definition regionMap :: "(string \<times> string) list" where
  "regionMap =
     [(''na1'', ''NA''), (''euw1'', ''EUW''), (''eun1'', ''EUNE''), (''kr'', ''KR''),
      (''br1'', ''BR''), (''jp1'', ''JP''), (''la1'', ''LAN''), (''la2'', ''LAS''),
      (''oc1'', ''OCE''), (''tr1'', ''TR''), (''ru'', ''RU''), (''ph2'', ''PH''),
      (''sg2'', ''SG''), (''th2'', ''TH''), (''tw2'', ''TW''), (''vn2'', ''VN''),
      (''me1'', ''ME''), (''sea'', ''SEA'')]"

text \<open>
  \<open>getOpGGUrl\<close>. \<open>const [summonerName, tagLine] = rankData.summonerName.split("#")\<close>
  takes the first two pieces of the split; \<open>tagLine\<close> is \<open>undefined\<close> when there is
  one piece only. \<open>split\<close> never yields an empty array, the last case is not reached.
\<close>

definition getOpGGUrl :: "string \<Rightarrow> EloWardRankData \<Rightarrow> string option" where
  "getOpGGUrl objectText rankData =
     (if \<not> truthy (summonerName rankData) \<or> \<not> truthy (region rankData) then None
      else case (summonerName rankData, region rankData) of
        (Val name, Val reg) \<Rightarrow>
          (case regionMapping_get objectText (toLowerCase reg) of
             None \<Rightarrow> None
           | Some opGGRegion \<Rightarrow>
               (case split (CHR ''#'') name of
                  summonerName' # rest \<Rightarrow>
                    let tagLine = (case rest of [] \<Rightarrow> Undefined | t # _ \<Rightarrow> Val t);
                        encodedName = encodeURIComponent summonerName';
                        tag = (case tagLine of
                                 Val t \<Rightarrow> if t \<noteq> [] then t else toUpperCase reg
                               | _ \<Rightarrow> toUpperCase reg)
                    in Some (''https://op.gg/lol/summoners/'' @ opGGRegion @ ''/'' @ encodedName
                             @ ''-'' @ tag)
                | [] \<Rightarrow> None))
      | _ \<Rightarrow> None)"

section \<open>The fetch coordinator\<close>

text \<open>
  The module runs on one thread. A call of an exported function runs up to its first
  \<open>await\<close> without interruption; the rest of \<open>fetchRankData\<close> runs when the network
  answers. The state holds the module's globals (\<open>rankCache\<close>, \<open>pendingRequests\<close>,
  \<open>globalData.userBadges\<close>), the configuration flag, \<open>isLoading\<close> of the one composable
  instance modelled, and what the JavaScript run time holds: the request promises in
  flight with the point where each is suspended, the value each settled promise has, the
  \<open>then\<close> callbacks of \<open>getOrFetchBadge\<close>, and the list of outbound \<open>fetch\<close> calls.
  The synchronous part before \<open>await fetch(...)\<close> does not throw (\<open>fetch\<close> returns a
  promise; \<open>AbortSignal.timeout\<close> is available).
\<close>

datatype stage = AwaitingResponse | AwaitingJson

datatype request = Request (request_key: string) (request_stage: stage)

record State =
  enabled :: bool
  isLoading :: bool
  rankCache :: LRUCache
  pendingRequests :: "(string \<times> nat) list"
  userBadges :: "string \<rightharpoonup> EloWardBadge option"
  requests :: "(nat \<times> request) list"
  settled :: "(nat \<times> EloWardRankData option) list"
  callbacks :: "(nat \<times> string) list"
  network :: "string list"
  nextPromise :: nat

definition initial :: "bool \<Rightarrow> State" where
  "initial e =
     \<lparr> enabled = e, isLoading = False, rankCache = LRUCache_new MAX_CACHE_SIZE,
       pendingRequests = [], userBadges = Map.empty, requests = [], settled = [],
       callbacks = [], network = [], nextPromise = 0 \<rparr>"

text \<open>
  What a call of \<open>fetchRankData\<close> returns: a promise that already has its value, or a
  promise that takes the value of the request promise with the given number.
\<close>

datatype fetch_result = Immediate "EloWardRankData option" | Pending nat

definition getCachedRankData :: "State \<Rightarrow> string \<Rightarrow> int \<Rightarrow> EloWardRankData js \<times> State" where
  "getCachedRankData s username now =
     (if \<not> enabled s \<or> username = [] then (Undefined, s)
      else let normalizedUsername = toLowerCase username;
               (result, c) = LRUCache_get (rankCache s) normalizedUsername now
           in (result, s\<lparr>rankCache := c\<rparr>))"

definition fetchRankData :: "State \<Rightarrow> string \<Rightarrow> int \<Rightarrow> fetch_result \<times> State" where
  "fetchRankData s username now =
     (if \<not> enabled s \<or> username = [] then (Immediate None, s)
      else
        let normalizedUsername = toLowerCase username;
            (cached, c) = LRUCache_get (rankCache s) normalizedUsername now;
            s1 = s\<lparr>rankCache := c\<rparr>
        in case cached of
             Null \<Rightarrow> (Immediate None, s1)
           | Val d \<Rightarrow> (Immediate (Some d), s1)
           | Undefined \<Rightarrow>
               (case map_of (pendingRequests s1) normalizedUsername of
                  Some p \<Rightarrow> (Pending p, s1)
                | None \<Rightarrow>
                    let requestPromise = nextPromise s1 in
                    (Pending requestPromise,
                     s1\<lparr>isLoading := True,
                        network := network s1 @ [API_BASE_URL @ ''/'' @ normalizedUsername],
                        requests := requests s1
                                    @ [(requestPromise, Request normalizedUsername AwaitingResponse)],
                        pendingRequests :=
                          AList.update normalizedUsername requestPromise (pendingRequests s1),
                        nextPromise := Suc requestPromise\<rparr>)))"

text \<open>The badge the \<open>then\<close> callback of \<open>getOrFetchBadge\<close> stores for a result.\<close>

definition project :: "EloWardRankData option \<Rightarrow> EloWardBadge option" where
  "project rankData = (case rankData of None \<Rightarrow> None | Some d \<Rightarrow> getRankBadge d)"

text \<open>
  The request promise settles with value \<open>r\<close>: the \<open>finally\<close> block runs, then the
  callbacks waiting for the promise.
\<close>

definition settle :: "State \<Rightarrow> nat \<Rightarrow> string \<Rightarrow> EloWardRankData option \<Rightarrow> State" where
  "settle s p normalizedUsername r =
     s\<lparr>isLoading := False,
       pendingRequests := AList.delete normalizedUsername (pendingRequests s),
       requests := AList.delete p (requests s),
       settled := settled s @ [(p, r)],
       userBadges := foldl (\<lambda>m k. m(k \<mapsto> project r)) (userBadges s)
                       (map snd (filter (\<lambda>(q, k). q = p) (callbacks s))),
       callbacks := filter (\<lambda>(q, k). q \<noteq> p) (callbacks s)\<rparr>"

text \<open>\<open>fetch\<close> resolves with a response of the given status; \<open>response.ok\<close> is 200 to 299.\<close>

definition on_response :: "State \<Rightarrow> nat \<Rightarrow> nat \<Rightarrow> int \<Rightarrow> State" where
  "on_response s p status now =
     (case map_of (requests s) p of
        Some (Request normalizedUsername AwaitingResponse) \<Rightarrow>
          if status = 404
          then settle (s\<lparr>rankCache := LRUCache_set (rankCache s) normalizedUsername None now\<rparr>)
                 p normalizedUsername None
          else if \<not> (200 \<le> status \<and> status \<le> 299)
          then settle s p normalizedUsername None
          else s\<lparr>requests := AList.update p (Request normalizedUsername AwaitingJson) (requests s)\<rparr>
      | _ \<Rightarrow> s)"

text \<open>\<open>fetch\<close> rejects: a network exception, an abort, the timeout.\<close>

definition on_fetch_error :: "State \<Rightarrow> nat \<Rightarrow> State" where
  "on_fetch_error s p =
     (case map_of (requests s) p of
        Some (Request normalizedUsername AwaitingResponse) \<Rightarrow> settle s p normalizedUsername None
      | _ \<Rightarrow> s)"

text \<open>
  The code after \<open>await response.json()\<close>, up to the \<open>return\<close>: the value returned and
  the cache. An exception (a rejected \<open>json()\<close>, a property read on \<open>null\<close>, a call of
  \<open>toLowerCase\<close> on a truthy value that is not a string) goes to \<open>catch\<close>, which returns
  \<open>null\<close> and writes nothing.
\<close>

definition after_json ::
  "LRUCache \<Rightarrow> string \<Rightarrow> json_outcome \<Rightarrow> int \<Rightarrow> EloWardRankData option \<times> LRUCache" where
  "after_json c normalizedUsername outcome now =
     (case outcome of
        JsonRejected \<Rightarrow> (None, c)
      | JsonNull \<Rightarrow> (None, c)
      | JsonValue body \<Rightarrow>
          if falsy (rank_tier body) then (None, LRUCache_set c normalizedUsername None now)
          else (case rank_tier body of
                  JString t \<Rightarrow>
                    if toLowerCase t \<notin> set RANK_TIERS
                    then (None, LRUCache_set c normalizedUsername None now)
                    else
                      let rankData =
                            \<lparr> tier = Val t,
                              division = rank_division body,
                              leaguePoints = lp body,
                              summonerName = riot_id body,
                              region = RankResponseBody.region body,
                              animate_badge = RankResponseBody.animate_badge body \<rparr>
                      in (Some rankData, LRUCache_set c normalizedUsername (Some rankData) now)
                | _ \<Rightarrow> (None, c)))"

definition on_json :: "State \<Rightarrow> nat \<Rightarrow> json_outcome \<Rightarrow> int \<Rightarrow> State" where
  "on_json s p outcome now =
     (case map_of (requests s) p of
        Some (Request normalizedUsername AwaitingJson) \<Rightarrow>
          let (r, c) = after_json (rankCache s) normalizedUsername outcome now
          in settle (s\<lparr>rankCache := c\<rparr>) p normalizedUsername r
      | _ \<Rightarrow> s)"

definition getOrFetchBadge :: "State \<Rightarrow> string \<Rightarrow> int \<Rightarrow> State" where
  "getOrFetchBadge s username now =
     (if \<not> enabled s \<or> username = [] then s
      else
        let normalizedUsername = toLowerCase username;
            (cachedData, c) = LRUCache_get (rankCache s) normalizedUsername now;
            s1 = s\<lparr>rankCache := c\<rparr>
        in case cachedData of
             Null \<Rightarrow> s1\<lparr>userBadges := (userBadges s1)(normalizedUsername \<mapsto> None)\<rparr>
           | Val d \<Rightarrow> s1\<lparr>userBadges := (userBadges s1)(normalizedUsername \<mapsto> getRankBadge d)\<rparr>
           | Undefined \<Rightarrow>
               if map_of (pendingRequests s1) normalizedUsername \<noteq> None then s1
               else (case fetchRankData s1 username now of
                       (Immediate rankData, s2) \<Rightarrow>
                         s2\<lparr>userBadges := (userBadges s2)(normalizedUsername \<mapsto> project rankData)\<rparr>
                     | (Pending p, s2) \<Rightarrow>
                         s2\<lparr>callbacks := callbacks s2 @ [(p, normalizedUsername)]\<rparr>))"

definition clearCache :: "State \<Rightarrow> State" where
  "clearCache s =
     s\<lparr>rankCache := LRUCache_clear (rankCache s), pendingRequests := [],
       userBadges := Map.empty\<rparr>"

text \<open>What can happen to the module: calls from the user interface and network events.\<close>

datatype event =
    CallFetchRankData string int
  | CallGetOrFetchBadge string int
  | CallGetCachedRankData string int
  | CallClearCache
  | ConfigEnabled bool
  | Response nat nat int
  | FetchError nat
  | Json nat json_outcome int

fun step :: "State \<Rightarrow> event \<Rightarrow> State" where
  "step s (CallFetchRankData username now) = snd (fetchRankData s username now)"
| "step s (CallGetOrFetchBadge username now) = getOrFetchBadge s username now"
| "step s (CallGetCachedRankData username now) = snd (getCachedRankData s username now)"
| "step s CallClearCache = clearCache s"
| "step s (ConfigEnabled b) = s\<lparr>enabled := b\<rparr>"
| "step s (Response p status now) = on_response s p status now"
| "step s (FetchError p) = on_fetch_error s p"
| "step s (Json p outcome now) = on_json s p outcome now"

definition run :: "State \<Rightarrow> event list \<Rightarrow> State" where
  "run s es = foldl step s es"

text \<open>
  The secondary operation as the specification words it: run the primary resolve
  operation and project its result into the badge store, at once when the result is
  there, when the promise settles otherwise.
\<close>

definition resolve_and_project :: "State \<Rightarrow> string \<Rightarrow> int \<Rightarrow> State" where
  "resolve_and_project s username now =
     (case fetchRankData s username now of
        (Immediate rankData, s') \<Rightarrow>
          s'\<lparr>userBadges := (userBadges s')(toLowerCase username \<mapsto> project rankData)\<rparr>
      | (Pending p, s') \<Rightarrow>
          s'\<lparr>callbacks := callbacks s' @ [(p, toLowerCase username)]\<rparr>)"

section \<open>Operations on the bounded cache\<close>

datatype cache_op = Get string int | Put string "EloWardRankData option" int | Clear

fun apply_op :: "LRUCache \<Rightarrow> cache_op \<Rightarrow> LRUCache" where
  "apply_op c (Get username now) = snd (LRUCache_get c username now)"
| "apply_op c (Put username d now) = LRUCache_set c username d now"
| "apply_op c Clear = LRUCache_clear c"

section \<open>Notions of the specification\<close>

text \<open>
  The first two pieces of a Riot ID split at \<open>#\<close>: the text before the first \<open>#\<close>, and
  the text between the first \<open>#\<close> and the second (up to the end when there is no
  second one; empty when there is no \<open>#\<close> at all).
\<close>

definition first_piece :: "string \<Rightarrow> string" where
  "first_piece s = takeWhile (\<lambda>c. c \<noteq> CHR ''#'') s"

definition second_piece :: "string \<Rightarrow> string" where
  "second_piece s = takeWhile (\<lambda>c. c \<noteq> CHR ''#'') (drop 1 (dropWhile (\<lambda>c. c \<noteq> CHR ''#'') s))"

text \<open>
  The recency order as the specification words it: a \<open>set\<close> and a hit of \<open>get\<close> touch
  the key. \<open>activity\<close> lists the touched keys in the order of the operations (a \<open>get\<close>
  of a key that was never stored touches nothing; \<open>clear\<close> forgets everything), and
  \<open>recency\<close> keeps the last touch of each key: the least recently touched key is first.
\<close>

fun touch :: "string list \<Rightarrow> cache_op \<Rightarrow> string list" where
  "touch log (Put username d now) = log @ [toLowerCase username]"
| "touch log (Get username now) =
     (if toLowerCase username \<in> set log then log @ [toLowerCase username] else log)"
| "touch log Clear = []"

definition activity :: "cache_op list \<Rightarrow> string list" where
  "activity ops = foldl touch [] ops"

definition recency :: "cache_op list \<Rightarrow> string list" where
  "recency ops = remdups (activity ops)"

fun put_key :: "cache_op \<Rightarrow> string list" where
  "put_key (Put username d now) = [toLowerCase username]"
| "put_key _ = []"

definition put_keys :: "cache_op list \<Rightarrow> string list" where
  "put_keys ops = concat (map put_key ops)"

fun op_time :: "cache_op \<Rightarrow> int list" where
  "op_time (Put username d now) = [now]"
| "op_time (Get username now) = [now]"
| "op_time Clear = []"

definition op_times :: "cache_op list \<Rightarrow> int list" where
  "op_times ops = concat (map op_time ops)"

text \<open>No two of the times are further apart than the shorter duration: nothing expires.\<close>

definition within_ttl :: "int list \<Rightarrow> bool" where
  "within_ttl ts = (\<forall>a\<in>set ts. \<forall>b\<in>set ts. a - b \<le> NEGATIVE_CACHE_DURATION)"


fun nonempty_key :: "cache_op \<Rightarrow> bool" where
  "nonempty_key (Put username d now) = (username \<noteq> [])"
| "nonempty_key _ = True"

text \<open>The cache has capacity \<open>n\<close>, holds at most \<open>n\<close> entries and no empty key.\<close>

definition bounded :: "nat \<Rightarrow> LRUCache \<Rightarrow> bool" where
  "bounded n c \<longleftrightarrow> maxSize c = n \<and> length (cache c) \<le> n \<and> [] \<notin> fst ` set (cache c)"

text \<open>\<open>typeof v === "string"\<close>.\<close>

fun is_string :: "jsvalue \<Rightarrow> bool" where
  "is_string (JString s) = True"
| "is_string _ = False"

text \<open>
  The \<open>EloWardRankData\<close> that \<open>fetchRankData\<close> builds from a body whose \<open>rank_tier\<close>
  is the string \<open>t\<close>.
\<close>

definition rank_of_body :: "string \<Rightarrow> RankResponseBody \<Rightarrow> EloWardRankData" where
  "rank_of_body t body =
     \<lparr> tier = Val t,
       division = rank_division body,
       leaguePoints = lp body,
       summonerName = riot_id body,
       region = RankResponseBody.region body,
       animate_badge = RankResponseBody.animate_badge body \<rparr>"

section \<open>The registry and the requests in flight\<close>

text \<open>
  Every lookup in flight is the one registered for its key, request promises are
  numbered below \<open>nextPromise\<close>, and no promise is in flight twice.
\<close>

definition registered :: "State \<Rightarrow> bool" where
  "registered s \<longleftrightarrow>
     (\<forall>(p, rq) \<in> set (requests s).
        map_of (pendingRequests s) (request_key rq) = Some p \<and> p < nextPromise s)
     \<and> distinct (map fst (requests s))"

text \<open>What the operations do to the request table, the registry and the promise counter.\<close>

definition unchanged :: "State \<Rightarrow> State \<Rightarrow> bool" where
  "unchanged s s' \<longleftrightarrow>
     requests s' = requests s \<and> pendingRequests s' = pendingRequests s
     \<and> nextPromise s' = nextPromise s"

definition started :: "string \<Rightarrow> State \<Rightarrow> State \<Rightarrow> bool" where
  "started k s s' \<longleftrightarrow>
     map_of (pendingRequests s) k = None
     \<and> requests s' = requests s @ [(nextPromise s, Request k AwaitingResponse)]
     \<and> pendingRequests s' = AList.update k (nextPromise s) (pendingRequests s)
     \<and> nextPromise s' = Suc (nextPromise s)"

definition finished :: "nat \<Rightarrow> string \<Rightarrow> State \<Rightarrow> State \<Rightarrow> bool" where
  "finished p k s s' \<longleftrightarrow>
     (\<exists>st. map_of (requests s) p = Some (Request k st))
     \<and> requests s' = AList.delete p (requests s)
     \<and> pendingRequests s' = AList.delete k (pendingRequests s)
     \<and> nextPromise s' = nextPromise s"

definition advanced :: "nat \<Rightarrow> string \<Rightarrow> State \<Rightarrow> State \<Rightarrow> bool" where
  "advanced p k s s' \<longleftrightarrow>
     map_of (requests s) p = Some (Request k AwaitingResponse)
     \<and> requests s' = AList.update p (Request k AwaitingJson) (requests s)
     \<and> pendingRequests s' = pendingRequests s
     \<and> nextPromise s' = nextPromise s"

section \<open>Example values\<close>

definition rank_gold :: EloWardRankData where
  "rank_gold = \<lparr> tier = Val ''gold'', division = Val ''II'', leaguePoints = Val 45,
                 summonerName = Val ''Player#NA1'', region = Val ''na1'',
                 animate_badge = Val False \<rparr>"

definition body_gold :: RankResponseBody where
  "body_gold = \<lparr> rank_tier = JString ''GOLD'', rank_division = Val ''II'', lp = Val 45,
                 riot_id = Val ''Player#NA1'', RankResponseBody.region = Val ''na1'',
                 RankResponseBody.animate_badge = Val False \<rparr>"

definition body_unranked :: RankResponseBody where
  "body_unranked = \<lparr> rank_tier = JString ''Unranked'', rank_division = Null, lp = Null,
                     riot_id = Val ''Player#NA1'', RankResponseBody.region = Val ''na1'',
                     RankResponseBody.animate_badge = Undefined \<rparr>"

definition body_unranked_division :: RankResponseBody where
  "body_unranked_division =
     \<lparr> rank_tier = JString ''unranked'', rank_division = Val ''IV'', lp = Null,
       riot_id = Val ''Player#NA1'', RankResponseBody.region = Val ''na1'',
       RankResponseBody.animate_badge = Undefined \<rparr>"

definition body_numeric_tier :: RankResponseBody where
  "body_numeric_tier = \<lparr> rank_tier = JNumber 5, rank_division = Undefined, lp = Undefined,
                         riot_id = Undefined, RankResponseBody.region = Undefined,
                         RankResponseBody.animate_badge = Undefined \<rparr>"

text \<open>The module after \<open>fetchRankData("Foo")\<close> at time 1000 on a fresh, enabled module.\<close>

definition awaiting_response :: State where
  "awaiting_response = run (initial True) [CallFetchRankData ''Foo'' 1000]"

text \<open>The same once the response with status 200 has arrived at time 1100.\<close>

definition awaiting_json :: State where
  "awaiting_json = run (initial True) [CallFetchRankData ''Foo'' 1000, Response 0 200 1100]"

section \<open>Strings\<close>

lemmas char_eval = toUpperCase_def toLowerCase_def toUpperCase_char_def toLowerCase_char_def
  char_of_def bit_0

lemmas num_eval = number_toString_def string_of_nat.simps char_of_def bit_0

lemma toLowerCase_toUpperCase_char: "toLowerCase_char (toUpperCase_char c) = toLowerCase_char c"
  by (auto simp: toLowerCase_char_def toUpperCase_char_def Let_def)

lemma toUpperCase_toLowerCase_char: "toUpperCase_char (toLowerCase_char c) = toUpperCase_char c"
  by (auto simp: toLowerCase_char_def toUpperCase_char_def Let_def)

lemma toLowerCase_toUpperCase: "toLowerCase (toUpperCase s) = toLowerCase s"
  by (simp add: toLowerCase_def toUpperCase_def toLowerCase_toUpperCase_char)

lemma toUpperCase_toLowerCase: "toUpperCase (toLowerCase s) = toUpperCase s"
  by (simp add: toLowerCase_def toUpperCase_def toUpperCase_toLowerCase_char)

lemma upper_eq_iff_lower_eq:
  assumes "toUpperCase l = u" and "toLowerCase u = l"
  shows "toUpperCase t = u \<longleftrightarrow> toLowerCase t = l"
proof
  assume "toUpperCase t = u"
  then have "toLowerCase (toUpperCase t) = l" using assms(2) by simp
  then show "toLowerCase t = l" by (simp add: toLowerCase_toUpperCase)
next
  assume "toLowerCase t = l"
  then have "toUpperCase (toLowerCase t) = u" using assms(1) by simp
  then show "toUpperCase t = u" by (simp add: toUpperCase_toLowerCase)
qed

lemma upper_unranked: "toUpperCase t = ''UNRANKED'' \<longleftrightarrow> toLowerCase t = ''unranked''"
  by (rule upper_eq_iff_lower_eq) (simp_all add: char_eval)

lemma upper_master: "toUpperCase t = ''MASTER'' \<longleftrightarrow> toLowerCase t = ''master''"
  by (rule upper_eq_iff_lower_eq) (simp_all add: char_eval)

lemma upper_grandmaster: "toUpperCase t = ''GRANDMASTER'' \<longleftrightarrow> toLowerCase t = ''grandmaster''"
  by (rule upper_eq_iff_lower_eq) (simp_all add: char_eval)

lemma upper_challenger: "toUpperCase t = ''CHALLENGER'' \<longleftrightarrow> toLowerCase t = ''challenger''"
  by (rule upper_eq_iff_lower_eq) (simp_all add: char_eval)

section \<open>Rank text\<close>

text \<open>
  C7. \<open>formatRankText\<close> returns \<open>UNRANKED\<close> when the tier is missing (absent, \<open>null\<close> or
  empty) or equals \<open>unranked\<close> whatever the letter case. Otherwise it returns the tier in
  upper case, then a space and the division when the division is present (not empty) and
  the lower-cased tier is none of master, grandmaster, challenger, then \<open>" - {lp} LP"\<close>
  when the league points are a number, zero included; only absent or \<open>null\<close> league
  points leave the suffix out.
\<close>

theorem formatRankText_spec:
  "(\<not> truthy (tier r) \<longrightarrow> formatRankText r = ''UNRANKED'') \<and>
   (tier r = Val t \<and> toLowerCase t = ''unranked'' \<longrightarrow> formatRankText r = ''UNRANKED'') \<and>
   (tier r = Val t \<and> t \<noteq> [] \<and> toLowerCase t \<noteq> ''unranked'' \<longrightarrow>
      formatRankText r =
        toUpperCase t
        @ (case division r of
             Val d \<Rightarrow> if d \<noteq> [] \<and> toLowerCase t \<notin> {''master'', ''grandmaster'', ''challenger''}
                      then '' '' @ d else ''''
           | _ \<Rightarrow> '''')
        @ (case leaguePoints r of
             Val points \<Rightarrow> '' - '' @ number_toString points @ '' LP''
           | _ \<Rightarrow> ''''))"
proof (intro conjI impI)
  assume "\<not> truthy (tier r)"
  then show "formatRankText r = ''UNRANKED''"
    by (cases "tier r") (simp_all add: formatRankText_def)
next
  assume "tier r = Val t \<and> toLowerCase t = ''unranked''"
  then show "formatRankText r = ''UNRANKED''"
    by (simp add: formatRankText_def Let_def upper_unranked)
next
  assume a: "tier r = Val t \<and> t \<noteq> [] \<and> toLowerCase t \<noteq> ''unranked''"
  then have u: "toUpperCase t \<noteq> ''UNRANKED''" by (simp add: upper_unranked)
  show "formatRankText r =
        toUpperCase t
        @ (case division r of
             Val d \<Rightarrow> if d \<noteq> [] \<and> toLowerCase t \<notin> {''master'', ''grandmaster'', ''challenger''}
                      then '' '' @ d else ''''
           | _ \<Rightarrow> '''')
        @ (case leaguePoints r of
             Val points \<Rightarrow> '' - '' @ number_toString points @ '' LP''
           | _ \<Rightarrow> '''')"
    using a u
    by (simp add: formatRankText_def Let_def upper_master upper_grandmaster upper_challenger
             split: js.splits)
qed

theorem formatRankText_spec_witness:
  "formatRankText \<lparr> tier = Val ''gold'', division = Val ''II'', leaguePoints = Val 45,
       summonerName = Undefined, region = Undefined, animate_badge = Undefined \<rparr>
     = ''GOLD II - 45 LP''
   \<and> formatRankText \<lparr> tier = Val ''master'', division = Undefined, leaguePoints = Val 200,
       summonerName = Undefined, region = Undefined, animate_badge = Undefined \<rparr>
     = ''MASTER - 200 LP''
   \<and> formatRankText \<lparr> tier = Val ''Unranked'', division = Undefined, leaguePoints = Undefined,
       summonerName = Undefined, region = Undefined, animate_badge = Undefined \<rparr>
     = ''UNRANKED''
   \<and> formatRankText \<lparr> tier = Null, division = Val ''I'', leaguePoints = Val 3,
       summonerName = Undefined, region = Undefined, animate_badge = Undefined \<rparr>
     = ''UNRANKED''
   \<and> formatRankText \<lparr> tier = Val ''Challenger'', division = Val ''I'', leaguePoints = Val 0,
       summonerName = Undefined, region = Undefined, animate_badge = Undefined \<rparr>
     = ''CHALLENGER - 0 LP''"
  using
    formatRankText_spec [of "\<lparr> tier = Val ''gold'', division = Val ''II'', leaguePoints = Val 45,
       summonerName = Undefined, region = Undefined, animate_badge = Undefined \<rparr>" "''gold''"]
    formatRankText_spec [of "\<lparr> tier = Val ''master'', division = Undefined, leaguePoints = Val 200,
       summonerName = Undefined, region = Undefined, animate_badge = Undefined \<rparr>" "''master''"]
    formatRankText_spec [of "\<lparr> tier = Val ''Unranked'', division = Undefined,
       leaguePoints = Undefined, summonerName = Undefined, region = Undefined,
       animate_badge = Undefined \<rparr>" "''Unranked''"]
    formatRankText_spec [of "\<lparr> tier = Null, division = Val ''I'', leaguePoints = Val 3,
       summonerName = Undefined, region = Undefined, animate_badge = Undefined \<rparr>" "[]"]
    formatRankText_spec [of "\<lparr> tier = Val ''Challenger'', division = Val ''I'',
       leaguePoints = Val 0, summonerName = Undefined, region = Undefined,
       animate_badge = Undefined \<rparr>" "''Challenger''"]
  by (simp add: char_eval num_eval)

section \<open>Expiry of cache entries\<close>

text \<open>
  C4. An entry stored with time stamp \<open>T\<close> (which \<open>set\<close> at time \<open>T\<close> stores): a positive
  entry read by \<open>get\<close> before \<open>T\<close> plus 60 minutes is a hit and stays in the cache, read
  after \<open>T\<close> plus 60 minutes it is a miss; a negative entry does the same with 15
  minutes; the \<open>get\<close> that finds the entry expired deletes it.
\<close>

theorem get_ttl:
  assumes "map_of (cache c) (toLowerCase u) = Some \<lparr> data = d, timestamp = T \<rparr>"
  shows "(d = Some r \<and> now < T + 60 * 60 * 1000 \<longrightarrow>
            fst (LRUCache_get c u now) = Val r
          \<and> map_of (cache (snd (LRUCache_get c u now))) (toLowerCase u)
              = Some \<lparr> data = d, timestamp = T \<rparr>)
       \<and> (d = Some r \<and> now > T + 60 * 60 * 1000 \<longrightarrow>
            fst (LRUCache_get c u now) = Undefined
          \<and> map_of (cache (snd (LRUCache_get c u now))) (toLowerCase u) = None)
       \<and> (d = None \<and> now < T + 15 * 60 * 1000 \<longrightarrow>
            fst (LRUCache_get c u now) = Null
          \<and> map_of (cache (snd (LRUCache_get c u now))) (toLowerCase u)
              = Some \<lparr> data = d, timestamp = T \<rparr>)
       \<and> (d = None \<and> now > T + 15 * 60 * 1000 \<longrightarrow>
            fst (LRUCache_get c u now) = Undefined
          \<and> map_of (cache (snd (LRUCache_get c u now))) (toLowerCase u) = None)
       \<and> map_of (cache (LRUCache_set c0 u d T)) (toLowerCase u)
           = Some \<lparr> data = d, timestamp = T \<rparr>"
  using assms
  by (auto simp: LRUCache_get_def LRUCache_set_def Let_def DEFAULT_CACHE_DURATION_def
        NEGATIVE_CACHE_DURATION_def AList.update_conv' AList.delete_conv')

theorem get_ttl_witness:
  "fst (LRUCache_get (LRUCache_set (LRUCache_new 500) ''Foo'' None 1000) ''FOO'' 900999) = Null
   \<and> fst (LRUCache_get (LRUCache_set (LRUCache_new 500) ''Foo'' None 1000) ''FOO'' 901001)
       = Undefined
   \<and> cache (snd (LRUCache_get (LRUCache_set (LRUCache_new 500) ''Foo'' None 1000) ''FOO'' 901001))
       = []
   \<and> fst (LRUCache_get (LRUCache_set (LRUCache_new 500) ''Foo'' (Some rank_gold) 1000)
            ''foo'' 3600999) = Val rank_gold
   \<and> fst (LRUCache_get (LRUCache_set (LRUCache_new 500) ''Foo'' (Some rank_gold) 1000)
            ''foo'' 3601001) = Undefined"
  using
    get_ttl [of "LRUCache_set (LRUCache_new 500) ''Foo'' None 1000" "''FOO''" None 1000
               rank_gold 900999]
    get_ttl [of "LRUCache_set (LRUCache_new 500) ''Foo'' None 1000" "''FOO''" None 1000
               rank_gold 901001]
    get_ttl [of "LRUCache_set (LRUCache_new 500) ''Foo'' (Some rank_gold) 1000" "''foo''"
               "Some rank_gold" 1000 rank_gold 3600999]
    get_ttl [of "LRUCache_set (LRUCache_new 500) ''Foo'' (Some rank_gold) 1000" "''foo''"
               "Some rank_gold" 1000 rank_gold 3601001]
  by (simp add: LRUCache_set_def LRUCache_get_def LRUCache_new_def char_eval
        NEGATIVE_CACHE_DURATION_def DEFAULT_CACHE_DURATION_def)

text \<open>
  C9. A \<open>get\<close> at the moment the age of the entry equals its duration
  (\<open>now - timestamp\<close> is the duration) is still a hit: the entry expires only when its
  age is greater than the duration.
\<close>

theorem get_at_ttl_boundary:
  assumes "map_of (cache c) (toLowerCase u) = Some e"
    and "now - timestamp e =
           (if data e = None then NEGATIVE_CACHE_DURATION else DEFAULT_CACHE_DURATION)"
  shows "fst (LRUCache_get c u now) = (case data e of None \<Rightarrow> Null | Some d \<Rightarrow> Val d)
       \<and> fst (LRUCache_get c u now) \<noteq> Undefined
       \<and> map_of (cache (snd (LRUCache_get c u now))) (toLowerCase u) = Some e"
  using assms
  by (auto simp: LRUCache_get_def Let_def AList.update_conv' split: option.splits)

theorem get_at_ttl_boundary_witness:
  "fst (LRUCache_get (LRUCache_set (LRUCache_new 500) ''Foo'' None 1000) ''FOO'' 901000) = Null
   \<and> fst (LRUCache_get (LRUCache_set (LRUCache_new 500) ''Foo'' (Some rank_gold) 1000)
            ''foo'' 3601000) = Val rank_gold"
  using
    get_at_ttl_boundary [of "LRUCache_set (LRUCache_new 500) ''Foo'' None 1000" "''FOO''"
      "\<lparr> data = None, timestamp = 1000 \<rparr>" 901000]
    get_at_ttl_boundary [of "LRUCache_set (LRUCache_new 500) ''Foo'' (Some rank_gold) 1000"
      "''foo''" "\<lparr> data = Some rank_gold, timestamp = 1000 \<rparr>" 3601000]
  by (simp add: LRUCache_set_def LRUCache_new_def char_eval NEGATIVE_CACHE_DURATION_def
        DEFAULT_CACHE_DURATION_def)

section \<open>Profile URL\<close>

lemma split_unfold:
  "split sep s = takeWhile (\<lambda>c. c \<noteq> sep) s
                 # (case dropWhile (\<lambda>c. c \<noteq> sep) s of [] \<Rightarrow> [] | _ # rest \<Rightarrow> split sep rest)"
  by (induction s) (auto simp: Let_def split: list.splits)

lemma regionMapping_get_own:
  "regionMapping_get ot k = None \<longleftrightarrow>
     k \<notin> fst ` set regionMapping \<and> k \<noteq> ''constructor'' \<and> k \<noteq> ''__proto__''"
proof (cases "map_of regionMapping k")
  case None
  then have "k \<notin> fst ` set regionMapping" by (simp add: map_of_eq_None_iff)
  with None show ?thesis unfolding regionMapping_get_def by auto
next
  case (Some v)
  then have "k \<in> fst ` set regionMapping"
    by (metis map_of_eq_None_iff option.distinct(1))
  with Some show ?thesis unfolding regionMapping_get_def by simp
qed

lemma split_not_Nil: "split sep s \<noteq> []"
  by (subst split_unfold) simp

lemma hd_split: "hd (split sep s) = takeWhile (\<lambda>c. c \<noteq> sep) s"
  by (subst split_unfold) simp

lemma split_pieces:
  "\<exists>more. split (CHR ''#'') s = first_piece s # more
          \<and> (case more of [] \<Rightarrow> second_piece s = [] | t # _ \<Rightarrow> t = second_piece s)"
proof (cases "dropWhile (\<lambda>c. c \<noteq> CHR ''#'') s")
  case Nil
  have "split (CHR ''#'') s = [first_piece s]"
    unfolding first_piece_def by (subst split_unfold) (simp only: Nil list.simps)
  moreover have "second_piece s = []" unfolding second_piece_def Nil by simp
  ultimately show ?thesis by simp
next
  case (Cons x rest)
  have "split (CHR ''#'') s = first_piece s # split (CHR ''#'') rest"
    unfolding first_piece_def by (subst split_unfold) (simp only: Cons list.simps)
  moreover have "hd (split (CHR ''#'') rest) = second_piece s"
    unfolding second_piece_def Cons by (simp add: hd_split)
  then obtain ts where "split (CHR ''#'') rest = second_piece s # ts"
    using split_not_Nil [of "CHR ''#''" rest] by (cases "split (CHR ''#'') rest") simp_all
  ultimately show ?thesis by simp
qed

lemma getOpGGUrl_pieces:
  assumes "summonerName r = Val name" "name \<noteq> []" "region r = Val reg" "reg \<noteq> []"
  shows "getOpGGUrl ot r =
           (case regionMapping_get ot (toLowerCase reg) of
              None \<Rightarrow> None
            | Some slug \<Rightarrow>
                Some (''https://op.gg/lol/summoners/'' @ slug @ ''/''
                      @ encodeURIComponent (first_piece name) @ ''-''
                      @ (if second_piece name = [] then toUpperCase reg else second_piece name)))"
proof -
  obtain more where m: "split (CHR ''#'') name = first_piece name # more"
    and t: "case more of [] \<Rightarrow> second_piece name = [] | t # _ \<Rightarrow> t = second_piece name"
    using split_pieces by blast
  show ?thesis
  proof (cases more)
    case Nil
    with t have "second_piece name = []" by simp
    with assms m Nil show ?thesis
      by (simp add: getOpGGUrl_def Let_def split: option.splits)
  next
    case (Cons t' ts)
    with t have "t' = second_piece name" by simp
    with assms m Cons show ?thesis
      by (simp add: getOpGGUrl_def Let_def split: option.splits)
  qed
qed

text \<open>
  C8, amended. \<open>getOpGGUrl\<close> returns \<open>null\<close> when the summoner name or the region is
  missing (absent, \<open>null\<close> or empty). Otherwise, for a region whose lower-cased code is
  not the name of a member that the table object inherits (\<open>constructor\<close>, \<open>__proto__\<close>;
  nothing is stated for these two), it returns \<open>null\<close> exactly when the lower-cased region
  is not a key of the OP.GG table. For a key of the table the URL is made of the table's
  slug, the percent-encoded text before the first \<open>#\<close> of the summoner name, and as tag
  the text between the first and the second \<open>#\<close>, or the upper-cased region when that
  text is empty or there is no \<open>#\<close>. The values of the OP.GG table and of the display
  table are disjoint.
\<close>

theorem getOpGGUrl_spec:
  "(\<not> truthy (summonerName r) \<or> \<not> truthy (region r) \<longrightarrow> getOpGGUrl ot r = None)
   \<and> (summonerName r = Val name \<and> name \<noteq> [] \<and> region r = Val reg \<and> reg \<noteq> [] \<longrightarrow>
        (toLowerCase reg \<noteq> ''constructor'' \<and> toLowerCase reg \<noteq> ''__proto__'' \<longrightarrow>
           (getOpGGUrl ot r = None \<longleftrightarrow> toLowerCase reg \<notin> fst ` set regionMapping))
      \<and> (map_of regionMapping (toLowerCase reg) = Some slug \<longrightarrow>
           getOpGGUrl ot r =
             Some (''https://op.gg/lol/summoners/'' @ slug @ ''/''
                   @ encodeURIComponent (first_piece name) @ ''-''
                   @ (if second_piece name = [] then toUpperCase reg else second_piece name))))
   \<and> set (map snd regionMapping) \<inter> set (map snd regionMap) = {}"
proof (intro conjI impI)
  assume "\<not> truthy (summonerName r) \<or> \<not> truthy (region r)"
  then show "getOpGGUrl ot r = None" by (simp add: getOpGGUrl_def)
next
  assume a: "summonerName r = Val name \<and> name \<noteq> [] \<and> region r = Val reg \<and> reg \<noteq> []"
    and b: "toLowerCase reg \<noteq> ''constructor'' \<and> toLowerCase reg \<noteq> ''__proto__''"
  from a have "getOpGGUrl ot r = None \<longleftrightarrow> regionMapping_get ot (toLowerCase reg) = None"
    by (simp add: getOpGGUrl_pieces [of r name reg] split: option.splits)
  then show "getOpGGUrl ot r = None \<longleftrightarrow> toLowerCase reg \<notin> fst ` set regionMapping"
    using b by (simp add: regionMapping_get_own)
next
  assume a: "summonerName r = Val name \<and> name \<noteq> [] \<and> region r = Val reg \<and> reg \<noteq> []"
    and m: "map_of regionMapping (toLowerCase reg) = Some slug"
  have g: "regionMapping_get ot (toLowerCase reg) = Some slug"
    using m by (simp add: regionMapping_get_def)
  show "getOpGGUrl ot r =
             Some (''https://op.gg/lol/summoners/'' @ slug @ ''/''
                   @ encodeURIComponent (first_piece name) @ ''-''
                   @ (if second_piece name = [] then toUpperCase reg else second_piece name))"
    using a g by (simp add: getOpGGUrl_pieces [of r name reg])
next
  show "set (map snd regionMapping) \<inter> set (map snd regionMap) = {}"
    by (simp add: regionMapping_def regionMap_def)
qed

lemmas uri_eval = encodeURIComponent_def uri_unreserved_def hex_digit_def

theorem getOpGGUrl_spec_witness:
  "getOpGGUrl ''function Object() { [native code] }''
     \<lparr> tier = Val ''gold'', division = Undefined, leaguePoints = Undefined,
       summonerName = Val ''Hide on bush#KR1'', region = Val ''KR'', animate_badge = Undefined \<rparr>
     = Some ''https://op.gg/lol/summoners/kr/Hide%20on%20bush-KR1''
   \<and> getOpGGUrl ''function Object() { [native code] }''
     \<lparr> tier = Val ''gold'', division = Undefined, leaguePoints = Undefined,
       summonerName = Val ''Faker'', region = Val ''kr'', animate_badge = Undefined \<rparr>
     = Some ''https://op.gg/lol/summoners/kr/Faker-KR''
   \<and> getOpGGUrl ''function Object() { [native code] }''
     \<lparr> tier = Val ''gold'', division = Undefined, leaguePoints = Undefined,
       summonerName = Val ''Faker'', region = Val ''sea'', animate_badge = Undefined \<rparr>
     = None
   \<and> getOpGGUrl ''function Object() { [native code] }''
     \<lparr> tier = Val ''gold'', division = Undefined, leaguePoints = Undefined,
       summonerName = Val ''Faker'', region = Null, animate_badge = Undefined \<rparr>
     = None"
  using
    getOpGGUrl_spec [of "\<lparr> tier = Val ''gold'', division = Undefined, leaguePoints = Undefined,
       summonerName = Val ''Hide on bush#KR1'', region = Val ''KR'', animate_badge = Undefined \<rparr>"
       "''function Object() { [native code] }''" "''Hide on bush#KR1''" "''KR''" "''kr''"]
    getOpGGUrl_spec [of "\<lparr> tier = Val ''gold'', division = Undefined, leaguePoints = Undefined,
       summonerName = Val ''Faker'', region = Val ''kr'', animate_badge = Undefined \<rparr>"
       "''function Object() { [native code] }''" "''Faker''" "''kr''" "''kr''"]
    getOpGGUrl_spec [of "\<lparr> tier = Val ''gold'', division = Undefined, leaguePoints = Undefined,
       summonerName = Val ''Faker'', region = Val ''sea'', animate_badge = Undefined \<rparr>"
       "''function Object() { [native code] }''" "''Faker''" "''sea''" "''x''"]
    getOpGGUrl_spec [of "\<lparr> tier = Val ''gold'', division = Undefined, leaguePoints = Undefined,
       summonerName = Val ''Faker'', region = Null, animate_badge = Undefined \<rparr>"
       "''function Object() { [native code] }''" "''Faker''" "''sea''" "''x''"]
  by (simp add: regionMapping_def first_piece_def second_piece_def char_eval uri_eval)

theorem getOpGGUrl_counterexample:
  "getOpGGUrl ''function Object() { [native code] }''
     \<lparr> tier = Val ''gold'', division = Undefined, leaguePoints = Undefined,
       summonerName = Val ''a#b#c'', region = Val ''na1'', animate_badge = Undefined \<rparr>
     = Some ''https://op.gg/lol/summoners/na/a-b''
   \<and> getOpGGUrl ''function Object() { [native code] }''
     \<lparr> tier = Val ''gold'', division = Undefined, leaguePoints = Undefined,
       summonerName = Val ''a#b#c'', region = Val ''na1'', animate_badge = Undefined \<rparr>
     \<noteq> Some (''https://op.gg/lol/summoners/na/'' @ encodeURIComponent ''a'' @ ''-'' @ ''b#c'')"
  by (simp add: getOpGGUrl_def regionMapping_get_def regionMapping_def char_eval uri_eval)

text \<open>
  The lookup \<open>regionMapping[...]\<close> on an inherited name: the value found is not
  \<open>undefined\<close>, the test \<open>if (!opGGRegion)\<close> lets it pass, and a URL is built from
  its text although the region is no key of the table.
\<close>

lemma getOpGGUrl_inherited_member:
  "''constructor'' \<notin> fst ` set regionMapping
   \<and> getOpGGUrl ''function Object() { [native code] }''
     \<lparr> tier = Val ''gold'', division = Undefined, leaguePoints = Undefined,
       summonerName = Val ''a#b'', region = Val ''Constructor'', animate_badge = Undefined \<rparr>
     = Some ''https://op.gg/lol/summoners/function Object() { [native code] }/a-b''"
  by (simp add: getOpGGUrl_def regionMapping_get_def regionMapping_def char_eval uri_eval)

section \<open>The bounded cache\<close>

lemma toLowerCase_Nil_iff: "toLowerCase u = [] \<longleftrightarrow> u = []"
  by (simp add: toLowerCase_def)

lemma length_alist_update:
  "length (AList.update k v al) = (if k \<in> fst ` set al then length al else Suc (length al))"
  by (induction al) auto

lemma length_alist_delete_less:
  "k \<in> fst ` set al \<Longrightarrow> length (AList.delete k al) < length al"
proof -
  assume "k \<in> fst ` set al"
  then obtain v where "(k, v) \<in> set al" by auto
  then show ?thesis
    using length_filter_less [of "(k, v)" al "\<lambda>(k', _). k \<noteq> k'"]
    by (simp add: AList.delete_eq)
qed

lemma keys_alist_update_new:
  "k \<notin> fst ` set al \<Longrightarrow> map fst (AList.update k v al) = map fst al @ [k]"
  by (simp add: AList.update_keys)

lemma map_of_None_iff_keys: "map_of al k = None \<longleftrightarrow> k \<notin> fst ` set al"
  by (simp add: map_of_eq_None_iff)


lemma bounded_new: "bounded n (LRUCache_new n)"
  by (simp add: bounded_def LRUCache_new_def)

lemma bounded_clear: "bounded n c \<Longrightarrow> bounded n (LRUCache_clear c)"
  by (simp add: bounded_def LRUCache_clear_def)

lemma bounded_get: 
  assumes "bounded n c"
  shows "bounded n (snd (LRUCache_get c u now))"
proof (cases "map_of (cache c) (toLowerCase u)")
  case None
  then show ?thesis using assms by (simp add: LRUCache_get_def)
next
  case (Some e)
  then have k: "toLowerCase u \<in> fst ` set (cache c)"
    by (metis map_of_None_iff_keys option.distinct(1))
  have d: "length (AList.delete (toLowerCase u) (cache c)) < length (cache c)"
    using k by (rule length_alist_delete_less)
  have s: "fst ` set (AList.delete (toLowerCase u) (cache c)) \<subseteq> fst ` set (cache c)"
    by (rule AList.dom_delete_subset)
  have n: "toLowerCase u \<noteq> []"
  proof
    assume "toLowerCase u = []"
    with k have "[] \<in> fst ` set (cache c)" by simp
    with assms show False by (simp add: bounded_def)
  qed
  show ?thesis
    using Some assms d s n
    by (auto simp: LRUCache_get_def Let_def bounded_def length_alist_update AList.dom_update
          AList.delete_notin_dom)
qed

lemma bounded_set:
  assumes "bounded n c" and "1 \<le> n" and "u \<noteq> []"
  shows "bounded n (LRUCache_set c u d now)"
proof -
  let ?k = "toLowerCase u"
  have kn: "?k \<noteq> []" using assms(3) by (simp add: toLowerCase_Nil_iff)
  show ?thesis
  proof (cases "length (cache c) \<ge> maxSize c \<and> map_of (cache c) ?k = None")
    case False
    then have "LRUCache_set c u d now
                 = c\<lparr>cache := AList.update ?k \<lparr> data = d, timestamp = now \<rparr> (cache c)\<rparr>"
      by (auto simp: LRUCache_set_def Let_def)
    moreover have "length (AList.update ?k \<lparr> data = d, timestamp = now \<rparr> (cache c)) \<le> n"
      using False assms(1)
      by (auto simp: length_alist_update bounded_def map_of_None_iff_keys)
    ultimately show ?thesis using assms(1) kn by (auto simp: bounded_def AList.dom_update)
  next
    case True
    then have full: "length (cache c) \<ge> n" and absent: "?k \<notin> fst ` set (cache c)"
      using assms(1) by (auto simp: bounded_def map_of_None_iff_keys)
    then obtain fk fe rest where c: "cache c = (fk, fe) # rest"
      using assms(2) by (cases "cache c") auto
    have fk: "fk \<noteq> []" using assms(1) c by (auto simp: bounded_def)
    have eq: "LRUCache_set c u d now
                = c\<lparr>cache := AList.update ?k \<lparr> data = d, timestamp = now \<rparr>
                                (AList.delete fk (cache c))\<rparr>"
      using True c fk by (simp add: LRUCache_set_def Let_def)
    have "length (AList.delete fk (cache c)) < length (cache c)"
      by (rule length_alist_delete_less) (simp add: c)
    then have "length (AList.update ?k \<lparr> data = d, timestamp = now \<rparr>
                        (AList.delete fk (cache c))) \<le> n"
      using assms(1) by (auto simp: length_alist_update bounded_def)
    moreover have "fst ` set (AList.delete fk (cache c)) \<subseteq> fst ` set (cache c)"
      by (rule AList.dom_delete_subset)
    ultimately show ?thesis
      using assms(1) kn unfolding eq by (auto simp: bounded_def AList.dom_update)
  qed
qed


lemma bounded_apply_op:
  "bounded n c \<Longrightarrow> 1 \<le> n \<Longrightarrow> nonempty_key op \<Longrightarrow> bounded n (apply_op c op)"
  by (cases op) (simp_all add: bounded_get bounded_set bounded_clear)

lemma bounded_foldl:
  "bounded n c \<Longrightarrow> 1 \<le> n \<Longrightarrow> list_all nonempty_key ops \<Longrightarrow> bounded n (foldl apply_op c ops)"
  by (induction ops arbitrary: c) (simp_all add: bounded_apply_op)

lemma remdups_snoc: "remdups (xs @ [k]) = removeAll k (remdups xs) @ [k]"
  by (induction xs) auto

lemma toLowerCase_char_idem: "toLowerCase_char (toLowerCase_char c) = toLowerCase_char c"
  by (auto simp: toLowerCase_char_def Let_def)

lemma toLowerCase_idem: "toLowerCase (toLowerCase u) = toLowerCase u"
  by (simp add: toLowerCase_def toLowerCase_char_idem)

lemma removeAll_hd_distinct: "distinct xs \<Longrightarrow> xs \<noteq> [] \<Longrightarrow> removeAll (hd xs) xs = tl xs"
  by (cases xs) auto

text \<open>Steps of the cache in terms of its list of keys.\<close>

lemma keys_set_append:
  assumes "toLowerCase u \<notin> set (map fst (cache c))" and "length (cache c) < maxSize c"
  shows "cache (LRUCache_set c u d now)
           = cache c @ [(toLowerCase u, \<lparr> data = d, timestamp = now \<rparr>)]"
proof -
  have "AList.update k v al = al @ [(k, v)]" if "k \<notin> fst ` set al" for k v and al :: "(string \<times> CacheEntry) list"
    using that by (induction al) auto
  then show ?thesis using assms by (simp add: LRUCache_set_def Let_def)
qed

lemma get_miss_absent:
  "toLowerCase u \<notin> set (map fst (cache c)) \<Longrightarrow> LRUCache_get c u now = (Undefined, c)"
  by (simp add: LRUCache_get_def map_of_None_iff_keys [symmetric])

lemma get_hit_fresh:
  assumes "map_of (cache c) (toLowerCase u) = Some e"
    and "now - timestamp e \<le> NEGATIVE_CACHE_DURATION"
  shows "fst (LRUCache_get c u now) \<noteq> Undefined"
    and "cache (snd (LRUCache_get c u now))
           = AList.delete (toLowerCase u) (cache c) @ [(toLowerCase u, e)]"
proof -
  have le: "NEGATIVE_CACHE_DURATION \<le> DEFAULT_CACHE_DURATION"
    by (simp add: NEGATIVE_CACHE_DURATION_def DEFAULT_CACHE_DURATION_def)
  have app: "AList.update k v al = al @ [(k, v)]" if "k \<notin> fst ` set al"
    for k v and al :: "(string \<times> CacheEntry) list"
    using that by (induction al) auto
  have fresh: "\<not> now - timestamp e >
          (if data e = None then NEGATIVE_CACHE_DURATION else DEFAULT_CACHE_DURATION)"
    using assms(2) le by auto
  show "fst (LRUCache_get c u now) \<noteq> Undefined"
    using assms(1) fresh by (auto simp: LRUCache_get_def Let_def split: option.splits)
  show "cache (snd (LRUCache_get c u now))
           = AList.delete (toLowerCase u) (cache c) @ [(toLowerCase u, e)]"
    using assms(1) fresh app [OF AList.delete_notin_dom]
    by (auto simp: LRUCache_get_def Let_def split: option.splits)
qed

lemma within_ttl_subset: "within_ttl ts \<Longrightarrow> set ts' \<subseteq> set ts \<Longrightarrow> within_ttl ts'"
  by (auto simp: within_ttl_def)

lemma foldl_apply_op_maxSize: "maxSize (foldl apply_op c ops) = maxSize c"
proof (induction ops arbitrary: c)
  case Nil
  then show ?case by simp
next
  case (Cons op ops)
  have "maxSize (apply_op c op) = maxSize c"
    by (cases op)
       (auto simp: LRUCache_get_def LRUCache_set_def LRUCache_clear_def Let_def
             split: option.splits)
  with Cons show ?case by simp
qed

lemma lru_order:
  assumes "list_all (\<lambda>op. op \<noteq> Clear) ops"
    and "distinct (put_keys ops)"
    and "length (put_keys ops) \<le> n"
    and "within_ttl (op_times ops)"
  shows "map fst (cache (foldl apply_op (LRUCache_new n) ops)) = recency ops
       \<and> set (activity ops) = set (put_keys ops)
       \<and> (\<forall>e \<in> snd ` set (cache (foldl apply_op (LRUCache_new n) ops)).
             timestamp e \<in> set (op_times ops))"
  using assms
proof (induction ops rule: rev_induct)
  case Nil
  then show ?case
    by (simp add: LRUCache_new_def recency_def activity_def put_keys_def)
next
  case (snoc op ops)
  let ?c = "foldl apply_op (LRUCache_new n) ops"
  have p1: "list_all (\<lambda>op. op \<noteq> Clear) ops" using snoc.prems(1) by simp
  have p2: "distinct (put_keys ops)" using snoc.prems(2) by (simp add: put_keys_def)
  have p3: "length (put_keys ops) \<le> n" using snoc.prems(3) by (simp add: put_keys_def)
  have p4: "within_ttl (op_times ops)"
    using snoc.prems(4) by (rule within_ttl_subset) (simp add: op_times_def)
  note ih = snoc.IH [OF p1 p2 p3 p4]
  have keys: "map fst (cache ?c) = recency ops" using ih by simp
  have act: "set (activity ops) = set (put_keys ops)" using ih by simp
  have ts: "\<forall>e \<in> snd ` set (cache ?c). timestamp e \<in> set (op_times ops)" using ih by simp
  have msz: "maxSize ?c = n" by (simp add: foldl_apply_op_maxSize LRUCache_new_def)
  have run: "foldl apply_op (LRUCache_new n) (ops @ [op]) = apply_op ?c op" by simp
  have actS: "activity (ops @ [x]) = touch (activity ops) x" for x by (simp add: activity_def)
  show ?case
  proof (cases op)
    case Clear
    with snoc.prems(1) show ?thesis by simp
  next
    case (Put u d t)
    let ?k = "toLowerCase u"
    have knew: "?k \<notin> set (put_keys ops)"
      using snoc.prems(2) Put by (simp add: put_keys_def)
    then have kact: "?k \<notin> set (activity ops)" using act by simp
    then have kc: "?k \<notin> set (map fst (cache ?c))" using keys by (simp add: recency_def)
    have "length (cache ?c) = length (recency ops)" using keys by (metis length_map)
    also have "\<dots> = card (set (activity ops))"
      by (simp add: recency_def length_remdups_card_conv)
    also have "\<dots> = length (put_keys ops)"
      using act p2 by (simp add: distinct_card)
    also have "\<dots> < n" using snoc.prems(3) Put by (simp add: put_keys_def)
    finally have room: "length (cache ?c) < maxSize ?c" using msz by simp
    have c': "cache (apply_op ?c op) = cache ?c @ [(?k, \<lparr> data = d, timestamp = t \<rparr>)]"
      using keys_set_append [OF kc room] Put by simp
    have "map fst (cache (apply_op ?c op)) = recency (ops @ [op])"
      using c' keys kact Put by (simp add: recency_def actS remdups_snoc)
    moreover have "set (activity (ops @ [op])) = set (put_keys (ops @ [op]))"
      using act Put by (simp add: actS put_keys_def)
    moreover have "\<forall>e \<in> snd ` set (cache (apply_op ?c op)).
                      timestamp e \<in> set (op_times (ops @ [op]))"
      using ts c' Put by (auto simp: op_times_def)
    ultimately show ?thesis unfolding run by blast
  next
    case (Get u t)
    let ?k = "toLowerCase u"
    have pk: "put_keys (ops @ [op]) = put_keys ops" using Get by (simp add: put_keys_def)
    show ?thesis
    proof (cases "?k \<in> set (activity ops)")
      case False
      then have kc: "?k \<notin> set (map fst (cache ?c))" using keys by (simp add: recency_def)
      have same: "apply_op ?c op = ?c" using get_miss_absent [OF kc] Get by simp
      have "activity (ops @ [op]) = activity ops" using False Get by (simp add: actS)
      then show ?thesis
        unfolding run same using ih pk Get by (auto simp: recency_def op_times_def)
    next
      case True
      then have "?k \<in> fst ` set (cache ?c)" using keys by (simp add: recency_def flip: set_map)
      then obtain e where e: "map_of (cache ?c) ?k = Some e"
        by (metis map_of_None_iff_keys not_Some_eq)
      then have "(?k, e) \<in> set (cache ?c)" by (rule map_of_SomeD)
      then have "timestamp e \<in> set (op_times ops)" using ts by force
      moreover have "t \<in> set (op_times (ops @ [op]))" using Get by (simp add: op_times_def)
      ultimately have fresh: "t - timestamp e \<le> NEGATIVE_CACHE_DURATION"
        using snoc.prems(4) by (auto simp: within_ttl_def op_times_def)
      have c': "cache (apply_op ?c op) = AList.delete ?k (cache ?c) @ [(?k, e)]"
        using get_hit_fresh(2) [OF e fresh] Get by simp
      have "map fst (cache (apply_op ?c op)) = removeAll ?k (recency ops) @ [?k]"
        using c' keys by (simp add: AList.delete_keys)
      moreover have "recency (ops @ [op]) = removeAll ?k (recency ops) @ [?k]"
        using True Get by (simp add: recency_def actS remdups_snoc)
      moreover have "set (activity (ops @ [op])) = set (put_keys (ops @ [op]))"
        using act True Get pk by (auto simp: actS)
      moreover have "\<forall>e' \<in> snd ` set (cache (apply_op ?c op)).
                      timestamp e' \<in> set (op_times (ops @ [op]))"
      proof
        fix e' assume "e' \<in> snd ` set (cache (apply_op ?c op))"
        then have "e' \<in> snd ` set (cache ?c)"
          using c' \<open>(?k, e) \<in> set (cache ?c)\<close> by (force simp: AList.delete_eq)
        then have "timestamp e' \<in> set (op_times ops)" using ts by blast
        then show "timestamp e' \<in> set (op_times (ops @ [op]))"
          by (simp add: op_times_def)
      qed
      ultimately show ?thesis unfolding run by simp
    qed
  qed
qed

lemma alist_update_append:
  "k \<notin> fst ` set al \<Longrightarrow> AList.update k v al = al @ [(k, v)]"
  by (induction al) auto

lemma put_keys_nonempty: "list_all nonempty_key ops \<Longrightarrow> [] \<notin> set (put_keys ops)"
proof (induction ops)
  case Nil
  then show ?case by (simp add: put_keys_def)
next
  case (Cons op ops)
  then show ?case
    by (cases op) (auto simp: put_keys_def toLowerCase_def)
qed

lemma put_keys_lowered: "x \<in> set (put_keys ops) \<Longrightarrow> toLowerCase x = x"
proof (induction ops)
  case Nil
  then show ?case by (simp add: put_keys_def)
next
  case (Cons op ops)
  then show ?case by (cases op) (auto simp: put_keys_def toLowerCase_idem)
qed

text \<open>
  The size bound and the eviction order when no key is stored twice. On a cache of
  capacity at least 1, after any sequence of \<open>get\<close>, \<open>set\<close> and \<open>clear\<close> whose \<open>set\<close>
  keys are not empty (every caller tests \<open>!username\<close> first), the number of entries is
  at most the capacity. And when, starting from the empty cache, as many distinct keys as
  the capacity have been stored (each once, with \<open>get\<close>s in between, all within the
  shorter duration), storing one more new key evicts exactly the least recently touched
  key (the head of \<open>recency\<close>): the keys of the cache are the other keys in recency
  order followed by the new key, the evicted key is a miss and every other key is a hit.
\<close>

theorem lru_bound_and_eviction:
  assumes "1 \<le> n" and "list_all nonempty_key ops"
  shows "LRUCache_size (foldl apply_op (LRUCache_new n) ops) \<le> n
       \<and> (list_all (\<lambda>op. op \<noteq> Clear) ops \<and> distinct (put_keys ops) \<and> length (put_keys ops) = n
            \<and> k \<noteq> [] \<and> toLowerCase k \<notin> set (put_keys ops)
            \<and> within_ttl (op_times ops @ [t, t']) \<longrightarrow>
          set (recency ops) = set (put_keys ops) \<and> distinct (recency ops)
          \<and> map fst (cache (LRUCache_set (foldl apply_op (LRUCache_new n) ops) k d t))
               = tl (recency ops) @ [toLowerCase k]
          \<and> fst (LRUCache_get (LRUCache_set (foldl apply_op (LRUCache_new n) ops) k d t)
                   (hd (recency ops)) t') = Undefined
          \<and> (\<forall>k' \<in> set (tl (recency ops)).
                fst (LRUCache_get (LRUCache_set (foldl apply_op (LRUCache_new n) ops) k d t)
                      k' t') \<noteq> Undefined))"
proof (intro conjI impI)
  show "LRUCache_size (foldl apply_op (LRUCache_new n) ops) \<le> n"
    using bounded_foldl [OF bounded_new assms] by (simp add: bounded_def LRUCache_size_def)
next
  let ?c = "foldl apply_op (LRUCache_new n) ops"
  let ?c' = "LRUCache_set ?c k d t"
  let ?k = "toLowerCase k"
  assume h: "list_all (\<lambda>op. op \<noteq> Clear) ops \<and> distinct (put_keys ops) \<and> length (put_keys ops) = n
            \<and> k \<noteq> [] \<and> toLowerCase k \<notin> set (put_keys ops)
            \<and> within_ttl (op_times ops @ [t, t'])"
  then have w: "within_ttl (op_times ops)"
    using within_ttl_subset [of "op_times ops @ [t, t']" "op_times ops"] by auto
  have ord: "map fst (cache ?c) = recency ops"
    and act: "set (activity ops) = set (put_keys ops)"
    and ts: "\<forall>e \<in> snd ` set (cache ?c). timestamp e \<in> set (op_times ops)"
    using lru_order [of ops n] h w by simp_all
  show s: "set (recency ops) = set (put_keys ops)" using act by (simp add: recency_def)
  show dist: "distinct (recency ops)" by (simp add: recency_def)
  have "length (recency ops) = card (set (recency ops))"
    using dist by (simp add: distinct_card)
  also have "\<dots> = length (put_keys ops)" using s h by (simp add: distinct_card)
  finally have len: "length (recency ops) = n" using h by simp
  then have ne: "recency ops \<noteq> []" using assms(1) by auto
  have msz: "maxSize ?c = n" by (simp add: foldl_apply_op_maxSize LRUCache_new_def)
  have "length (cache ?c) = length (map fst (cache ?c))" by simp
  then have full: "length (cache ?c) \<ge> maxSize ?c" using len msz by (simp add: ord)
  have absent: "map_of (cache ?c) ?k = None"
    using h s ord by (simp add: map_of_None_iff_keys flip: set_map)
  obtain fk fe rest where c: "cache ?c = (fk, fe) # rest"
    using ne ord by (cases "cache ?c") auto
  have fk: "fk = hd (recency ops)" using c ord [symmetric] by simp
  have "hd (recency ops) \<in> set (recency ops)" using ne by simp
  then have hdin: "hd (recency ops) \<in> set (put_keys ops)" by (simp only: s)
  have "[] \<notin> set (put_keys ops)" using assms(2) by (rule put_keys_nonempty)
  then have "fk \<noteq> []" using fk hdin by auto
  then have eq: "cache ?c' = AList.update ?k \<lparr> data = d, timestamp = t \<rparr> (AList.delete fk (cache ?c))"
    using full absent c by (simp add: LRUCache_set_def Let_def)
  have knd: "?k \<notin> fst ` set (AList.delete fk (cache ?c))"
    using absent AList.dom_delete_subset [of fk "cache ?c"]
    by (auto simp: map_of_None_iff_keys)
  have eq2: "cache ?c' = AList.delete fk (cache ?c) @ [(?k, \<lparr> data = d, timestamp = t \<rparr>)]"
    unfolding eq using knd by (rule alist_update_append)
  show keys': "map fst (cache ?c') = tl (recency ops) @ [?k]"
    unfolding eq2 using ord fk dist ne by (simp add: AList.delete_keys removeAll_hd_distinct)
  have hdk: "hd (recency ops) \<noteq> ?k" using h hdin by auto
  have "hd (recency ops) \<notin> set (tl (recency ops))" using dist ne by (cases "recency ops") auto
  then have "hd (recency ops) \<notin> set (map fst (cache ?c'))" using keys' hdk by simp
  moreover have lowered: "toLowerCase x = x" if "x \<in> set (recency ops)" for x
    using that s put_keys_lowered [of x ops] by simp
  ultimately show "fst (LRUCache_get ?c' (hd (recency ops)) t') = Undefined"
    using get_miss_absent [of "hd (recency ops)" ?c' t'] ne lowered [of "hd (recency ops)"]
    by simp
  show "\<forall>k' \<in> set (tl (recency ops)). fst (LRUCache_get ?c' k' t') \<noteq> Undefined"
  proof
    fix k' assume k': "k' \<in> set (tl (recency ops))"
    then have kin: "k' \<in> set (recency ops)" using ne by (cases "recency ops") auto
    then have low: "toLowerCase k' = k'" by (rule lowered)
    have "k' \<in> set (map fst (cache ?c'))" using k' by (simp add: keys')
    then have "k' \<in> fst ` set (cache ?c')" by simp
    then obtain e where e: "map_of (cache ?c') k' = Some e"
      by (metis map_of_None_iff_keys not_Some_eq)
    then have "(k', e) \<in> set (cache ?c')" by (rule map_of_SomeD)
    then have "e = \<lparr> data = d, timestamp = t \<rparr> \<or> e \<in> snd ` set (cache ?c)"
      unfolding eq2 by (force simp: AList.delete_eq)
    then have "timestamp e \<in> set (op_times ops @ [t, t'])" using ts by auto
    moreover have "t' \<in> set (op_times ops @ [t, t'])" by simp
    moreover have "within_ttl (op_times ops @ [t, t'])" using h by simp
    ultimately have "t' - timestamp e \<le> NEGATIVE_CACHE_DURATION"
      unfolding within_ttl_def by blast
    then show "fst (LRUCache_get ?c' k' t') \<noteq> Undefined"
      using get_hit_fresh(1) [of ?c' k' e t'] e low by simp
  qed
qed

lemmas cache_eval = LRUCache_new_def LRUCache_set_def LRUCache_get_def LRUCache_size_def
  LRUCache_clear_def Let_def NEGATIVE_CACHE_DURATION_def DEFAULT_CACHE_DURATION_def

theorem lru_bound_and_eviction_witness:
  "LRUCache_size (foldl apply_op (LRUCache_new 2)
      [Put ''A'' None 0, Put ''b'' (Some rank_gold) 10, Get ''a'' 20]) \<le> 2
   \<and> recency [Put ''A'' None 0, Put ''b'' (Some rank_gold) 10, Get ''a'' 20] = [''b'', ''a'']
   \<and> map fst (cache (LRUCache_set (foldl apply_op (LRUCache_new 2)
          [Put ''A'' None 0, Put ''b'' (Some rank_gold) 10, Get ''a'' 20]) ''C'' None 30))
       = [''a'', ''c'']
   \<and> fst (LRUCache_get (LRUCache_set (foldl apply_op (LRUCache_new 2)
          [Put ''A'' None 0, Put ''b'' (Some rank_gold) 10, Get ''a'' 20]) ''C'' None 30) ''b'' 40)
       = Undefined
   \<and> fst (LRUCache_get (LRUCache_set (foldl apply_op (LRUCache_new 2)
          [Put ''A'' None 0, Put ''b'' (Some rank_gold) 10, Get ''a'' 20]) ''C'' None 30) ''a'' 40)
       \<noteq> Undefined"
  using lru_bound_and_eviction [of 2 "[Put ''A'' None 0, Put ''b'' (Some rank_gold) 10, Get ''a'' 20]"
          "''C''" 30 40 None]
  by (simp add: recency_def activity_def put_keys_def op_times_def within_ttl_def char_eval
        NEGATIVE_CACHE_DURATION_def)

section \<open>Response classification\<close>

lemmas state_eval = run_def initial_def fetchRankData_def getOrFetchBadge_def
  getCachedRankData_def clearCache_def on_response_def on_fetch_error_def on_json_def
  after_json_def settle_def project_def resolve_and_project_def API_BASE_URL_def
  MAX_CACHE_SIZE_def

lemma awaiting_response_eq:
  "awaiting_response =
     \<lparr> enabled = True, isLoading = True, rankCache = \<lparr> cache = [], maxSize = 500 \<rparr>,
       pendingRequests = [(''foo'', 0)], userBadges = Map.empty,
       requests = [(0, Request ''foo'' AwaitingResponse)], settled = [], callbacks = [],
       network = [''https://eloward-ranks.unleashai.workers.dev/api/ranks/lol/foo''],
       nextPromise = 1 \<rparr>"
  by (simp add: awaiting_response_def state_eval cache_eval char_eval)

lemma awaiting_json_eq:
  "awaiting_json =
     \<lparr> enabled = True, isLoading = True, rankCache = \<lparr> cache = [], maxSize = 500 \<rparr>,
       pendingRequests = [(''foo'', 0)], userBadges = Map.empty,
       requests = [(0, Request ''foo'' AwaitingJson)], settled = [], callbacks = [],
       network = [''https://eloward-ranks.unleashai.workers.dev/api/ranks/lol/foo''],
       nextPromise = 1 \<rparr>"
  by (simp add: awaiting_json_def state_eval cache_eval char_eval)


lemma map_of_set_same:
  "map_of (cache (LRUCache_set c u d now)) (toLowerCase u) = Some \<lparr> data = d, timestamp = now \<rparr>"
  by (simp add: LRUCache_set_def Let_def AList.update_conv')

lemma settle_fields:
  "settled (settle s p k r) = settled s @ [(p, r)]"
  "rankCache (settle s p k r) = rankCache s"
  "pendingRequests (settle s p k r) = AList.delete k (pendingRequests s)"
  "requests (settle s p k r) = AList.delete p (requests s)"
  "isLoading (settle s p k r) = False"
  "network (settle s p k r) = network s"
  "enabled (settle s p k r) = enabled s"
  "nextPromise (settle s p k r) = nextPromise s"
  by (simp_all add: settle_def)

lemma on_json_eq:
  assumes "map_of (requests s) p = Some (Request key AwaitingJson)"
  shows "on_json s p outcome now =
           settle (s\<lparr>rankCache := snd (after_json (rankCache s) key outcome now)\<rparr>) p key
             (fst (after_json (rankCache s) key outcome now))"
  using assms by (simp add: on_json_def split_beta)

lemma after_json_cases:
  "(falsy (rank_tier b) \<or> (rank_tier b = JString t \<and> toLowerCase t \<notin> set RANK_TIERS) \<longrightarrow>
      after_json c key (JsonValue b) now = (None, LRUCache_set c key None now))
   \<and> (rank_tier b = JString t \<and> toLowerCase t \<in> set RANK_TIERS \<longrightarrow>
      after_json c key (JsonValue b) now
        = (Some (rank_of_body t b), LRUCache_set c key (Some (rank_of_body t b)) now))
   \<and> (\<not> falsy (rank_tier b) \<and> \<not> is_string (rank_tier b) \<longrightarrow>
      after_json c key (JsonValue b) now = (None, c))
   \<and> after_json c key JsonNull now = (None, c)
   \<and> after_json c key JsonRejected now = (None, c)"
proof -
  have e: "toLowerCase [] \<notin> set RANK_TIERS" by (simp add: toLowerCase_def RANK_TIERS_def)
  show ?thesis
    using e
    by (cases "rank_tier b")
       (auto simp: after_json_def rank_of_body_def Let_def)
qed

text \<open>
  C5, amended. For a successful response whose body has arrived: when \<open>rank_tier\<close> is
  absent or otherwise falsy (\<open>null\<close>, \<open>false\<close>, 0, the empty string), or is a string
  whose lower-cased value is not in the tier enumeration, a negative entry is written
  to the cache and the result is \<open>null\<close>; when it is a string whose lower-cased value is
  in the enumeration, the record is built from the body, written to the cache as a
  positive entry and returned. When \<open>rank_tier\<close> is a truthy value that is not a string,
  when the body is the JSON \<open>null\<close>, and when the body cannot be read as JSON, the code
  throws, the result is \<open>null\<close> and nothing is written to the cache.
\<close>

theorem json_classification:
  assumes "map_of (requests s) p = Some (Request key AwaitingJson)"
  shows
   "(falsy (rank_tier b) \<or> (rank_tier b = JString t \<and> toLowerCase t \<notin> set RANK_TIERS) \<longrightarrow>
       rankCache (on_json s p (JsonValue b) now) = LRUCache_set (rankCache s) key None now
     \<and> map_of (cache (rankCache (on_json s p (JsonValue b) now))) (toLowerCase key)
         = Some \<lparr> data = None, timestamp = now \<rparr>
     \<and> settled (on_json s p (JsonValue b) now) = settled s @ [(p, None)])
    \<and> (rank_tier b = JString t \<and> toLowerCase t \<in> set RANK_TIERS \<longrightarrow>
       rankCache (on_json s p (JsonValue b) now)
         = LRUCache_set (rankCache s) key (Some (rank_of_body t b)) now
     \<and> map_of (cache (rankCache (on_json s p (JsonValue b) now))) (toLowerCase key)
         = Some \<lparr> data = Some (rank_of_body t b), timestamp = now \<rparr>
     \<and> settled (on_json s p (JsonValue b) now) = settled s @ [(p, Some (rank_of_body t b))])
    \<and> (\<not> falsy (rank_tier b) \<and> \<not> is_string (rank_tier b) \<longrightarrow>
       rankCache (on_json s p (JsonValue b) now) = rankCache s
     \<and> settled (on_json s p (JsonValue b) now) = settled s @ [(p, None)])
    \<and> rankCache (on_json s p JsonNull now) = rankCache s
    \<and> settled (on_json s p JsonNull now) = settled s @ [(p, None)]
    \<and> rankCache (on_json s p JsonRejected now) = rankCache s
    \<and> settled (on_json s p JsonRejected now) = settled s @ [(p, None)]"
  using after_json_cases [of b t "rankCache s" key now]
  by (auto simp: on_json_eq [OF assms] settle_fields map_of_set_same)

theorem json_classification_witness:
  "settled (on_json awaiting_json 0 (JsonValue body_gold) 1200)
     = [(0, Some (rank_of_body ''GOLD'' body_gold))]
   \<and> cache (rankCache (on_json awaiting_json 0 (JsonValue body_gold) 1200))
     = [(''foo'', \<lparr> data = Some (rank_of_body ''GOLD'' body_gold), timestamp = 1200 \<rparr>)]
   \<and> settled (on_json awaiting_json 0
        (JsonValue (body_gold\<lparr>rank_tier := JString ''wood''\<rparr>)) 1200) = [(0, None)]
   \<and> cache (rankCache (on_json awaiting_json 0
        (JsonValue (body_gold\<lparr>rank_tier := JString ''wood''\<rparr>)) 1200))
     = [(''foo'', \<lparr> data = None, timestamp = 1200 \<rparr>)]
   \<and> cache (rankCache (on_json awaiting_json 0
        (JsonValue (body_gold\<lparr>rank_tier := JUndefined\<rparr>)) 1200))
     = [(''foo'', \<lparr> data = None, timestamp = 1200 \<rparr>)]"
  using json_classification [of awaiting_json 0 "''foo''" body_gold "''GOLD''" 1200]
    json_classification [of awaiting_json 0 "''foo''" "body_gold\<lparr>rank_tier := JString ''wood''\<rparr>"
      "''wood''" 1200]
    json_classification [of awaiting_json 0 "''foo''" "body_gold\<lparr>rank_tier := JUndefined\<rparr>"
      "''wood''" 1200]
  by (simp add: awaiting_json_eq body_gold_def RANK_TIERS_def cache_eval char_eval)

theorem json_classification_counterexample:
  "cache (rankCache (on_json awaiting_json 0 (JsonValue body_numeric_tier) 1200)) = []
   \<and> settled (on_json awaiting_json 0 (JsonValue body_numeric_tier) 1200) = [(0, None)]
   \<and> cache (rankCache (on_json awaiting_json 0 JsonNull 1200)) = []
   \<and> settled (on_json awaiting_json 0 JsonNull 1200) = [(0, None)]"
  by (simp add: awaiting_json_eq body_numeric_tier_def state_eval)


lemma get_fresh_positive:
  assumes "map_of (cache c) (toLowerCase u) = Some \<lparr> data = Some r, timestamp = T \<rparr>"
    and "now - T \<le> DEFAULT_CACHE_DURATION"
  shows "fst (LRUCache_get c u now) = Val r"
  using assms by (simp add: LRUCache_get_def Let_def)


lemma getRankBadge_unranked:
  assumes "toLowerCase t = ''unranked''"
  shows "getRankBadge (rank_of_body t b) =
     Some \<lparr> id_badge = ''eloward-unranked''
                        @ (case rank_division b of
                             Val d \<Rightarrow> if d \<noteq> [] then ''-'' @ d else ''''
                           | _ \<Rightarrow> ''''),
            EloWardBadge.tier = ''UNRANKED'',
            EloWardBadge.division = rank_division b,
            imageUrl = (if Boolean (RankResponseBody.animate_badge b)
                        then ''https://eloward-cdn.unleashai.workers.dev/lol/unranked_premium.webp?v=3''
                        else ''https://eloward-cdn.unleashai.workers.dev/lol/unranked.png?v=3''),
            animated = Boolean (RankResponseBody.animate_badge b),
            EloWardBadge.summonerName = riot_id b,
            EloWardBadge.region = RankResponseBody.region b,
            EloWardBadge.leaguePoints = lp b \<rparr>"
proof -
  have t: "t \<noteq> []" using assms by (auto simp: toLowerCase_def)
  have u: "toUpperCase t = ''UNRANKED''" using assms by (simp add: upper_unranked)
  show ?thesis
    using t u assms
    by (simp add: getRankBadge_def rank_of_body_def Let_def RANK_TIERS_def getImageUrl_def
          CDN_BASE_URL_def BADGE_CACHE_VERSION_def)
qed

text \<open>
  C10, amended. A successful response whose \<open>rank_tier\<close> is \<open>unranked\<close> in any letter
  case is a positive result: the record is the result and is cached as a positive entry,
  which is still a hit 60 minutes later, and the badge projector returns a badge for it
  with tier label \<open>UNRANKED\<close>, the unranked image URL (\<open>unranked.png\<close>, or
  \<open>unranked_premium.webp\<close> when the badge is animated) and the id \<open>eloward-unranked\<close>,
  followed by \<open>-\<close> and the division when the response carries a division.
\<close>

theorem unranked_is_positive:
  assumes "map_of (requests s) p = Some (Request key AwaitingJson)"
    and "rank_tier b = JString t"
    and "toLowerCase t = ''unranked''"
  shows
   "settled (on_json s p (JsonValue b) now) = settled s @ [(p, Some (rank_of_body t b))]
    \<and> map_of (cache (rankCache (on_json s p (JsonValue b) now))) (toLowerCase key)
        = Some \<lparr> data = Some (rank_of_body t b), timestamp = now \<rparr>
    \<and> (now' - now \<le> 60 * 60 * 1000 \<longrightarrow>
         fst (LRUCache_get (rankCache (on_json s p (JsonValue b) now)) key now')
           = Val (rank_of_body t b))
    \<and> getRankBadge (rank_of_body t b) =
         Some \<lparr> id_badge = ''eloward-unranked''
                        @ (case rank_division b of
                             Val d \<Rightarrow> if d \<noteq> [] then ''-'' @ d else ''''
                           | _ \<Rightarrow> ''''),
            EloWardBadge.tier = ''UNRANKED'',
            EloWardBadge.division = rank_division b,
            imageUrl = (if Boolean (RankResponseBody.animate_badge b)
                        then ''https://eloward-cdn.unleashai.workers.dev/lol/unranked_premium.webp?v=3''
                        else ''https://eloward-cdn.unleashai.workers.dev/lol/unranked.png?v=3''),
            animated = Boolean (RankResponseBody.animate_badge b),
            EloWardBadge.summonerName = riot_id b,
            EloWardBadge.region = RankResponseBody.region b,
            EloWardBadge.leaguePoints = lp b \<rparr>"
proof -
  have m: "toLowerCase t \<in> set RANK_TIERS" using assms(3) by (simp add: RANK_TIERS_def)
  have j: "rankCache (on_json s p (JsonValue b) now)
             = LRUCache_set (rankCache s) key (Some (rank_of_body t b)) now"
    "map_of (cache (rankCache (on_json s p (JsonValue b) now))) (toLowerCase key)
         = Some \<lparr> data = Some (rank_of_body t b), timestamp = now \<rparr>"
    "settled (on_json s p (JsonValue b) now) = settled s @ [(p, Some (rank_of_body t b))]"
    using after_json_cases [of b t "rankCache s" key now] assms(2) m
    by (simp_all add: on_json_eq [OF assms(1)] settle_fields map_of_set_same)
  have g: "now' - now \<le> 60 * 60 * 1000 \<longrightarrow>
         fst (LRUCache_get (rankCache (on_json s p (JsonValue b) now)) key now')
           = Val (rank_of_body t b)"
    using get_fresh_positive [OF j(2), of now'] by (simp add: DEFAULT_CACHE_DURATION_def)
  show ?thesis using j g getRankBadge_unranked [OF assms(3), of b] by simp
qed

theorem unranked_is_positive_witness:
  "settled (on_json awaiting_json 0 (JsonValue body_unranked) 1200)
     = [(0, Some (rank_of_body ''Unranked'' body_unranked))]
   \<and> fst (LRUCache_get (rankCache (on_json awaiting_json 0 (JsonValue body_unranked) 1200))
           ''foo'' 3601200) = Val (rank_of_body ''Unranked'' body_unranked)
   \<and> map_option id_badge (getRankBadge (rank_of_body ''Unranked'' body_unranked))
     = Some ''eloward-unranked''
   \<and> map_option EloWardBadge.tier (getRankBadge (rank_of_body ''Unranked'' body_unranked))
     = Some ''UNRANKED''
   \<and> map_option imageUrl (getRankBadge (rank_of_body ''Unranked'' body_unranked))
     = Some ''https://eloward-cdn.unleashai.workers.dev/lol/unranked.png?v=3''"
  using unranked_is_positive [of awaiting_json 0 "''foo''" body_unranked "''Unranked''" 1200 3601200]
  by (simp add: awaiting_json_eq body_unranked_def char_eval)

theorem unranked_badge_id_counterexample:
  "settled (on_json awaiting_json 0 (JsonValue body_unranked_division) 1200)
     = [(0, Some (rank_of_body ''unranked'' body_unranked_division))]
   \<and> map_option id_badge (getRankBadge (rank_of_body ''unranked'' body_unranked_division))
     = Some ''eloward-unranked-IV''"
  by (simp add: awaiting_json_eq body_unranked_division_def state_eval rank_of_body_def
        getRankBadge_def RANK_TIERS_def getImageUrl_def cache_eval char_eval)

section \<open>Negative caching and retry\<close>

lemma on_response_404_eq:
  assumes "map_of (requests s) p = Some (Request key AwaitingResponse)"
  shows "on_response s p 404 now
           = settle (s\<lparr>rankCache := LRUCache_set (rankCache s) key None now\<rparr>) p key None"
  using assms by (simp add: on_response_def)

lemma on_response_soft_eq:
  assumes "map_of (requests s) p = Some (Request key AwaitingResponse)"
    and "status \<noteq> 404" and "\<not> (200 \<le> status \<and> status \<le> 299)"
  shows "on_response s p status now = settle s p key None"
  using assms by (simp add: on_response_def)

lemma on_response_ok_eq:
  assumes "map_of (requests s) p = Some (Request key AwaitingResponse)"
    and "200 \<le> status \<and> status \<le> 299"
  shows "on_response s p status now
           = s\<lparr>requests := AList.update p (Request key AwaitingJson) (requests s)\<rparr>"
  using assms by (auto simp: on_response_def)

lemma on_fetch_error_eq:
  assumes "map_of (requests s) p = Some (Request key AwaitingResponse)"
  shows "on_fetch_error s p = settle s p key None"
  using assms by (simp add: on_fetch_error_def)

lemma fetchRankData_disabled:
  "\<not> enabled s \<or> u = [] \<Longrightarrow> fetchRankData s u now = (Immediate None, s)"
  by (simp add: fetchRankData_def)

lemma fetchRankData_unfold:
  assumes "enabled s" and "u \<noteq> []"
  shows "fetchRankData s u now =
     (let s1 = s\<lparr>rankCache := snd (LRUCache_get (rankCache s) (toLowerCase u) now)\<rparr> in
      case fst (LRUCache_get (rankCache s) (toLowerCase u) now) of
        Null \<Rightarrow> (Immediate None, s1)
      | Val d \<Rightarrow> (Immediate (Some d), s1)
      | Undefined \<Rightarrow>
          (case map_of (pendingRequests s) (toLowerCase u) of
             Some p \<Rightarrow> (Pending p, s1)
           | None \<Rightarrow>
               (Pending (nextPromise s),
                s1\<lparr>isLoading := True,
                   network := network s @ [API_BASE_URL @ ''/'' @ toLowerCase u],
                   requests := requests s @ [(nextPromise s, Request (toLowerCase u) AwaitingResponse)],
                   pendingRequests := AList.update (toLowerCase u) (nextPromise s) (pendingRequests s),
                   nextPromise := Suc (nextPromise s)\<rparr>)))"
  using assms by (simp add: fetchRankData_def Let_def split_beta split: js.splits option.splits)

lemma get_absent:
  "map_of (cache c) (toLowerCase u) = None \<Longrightarrow> LRUCache_get c (toLowerCase u) now = (Undefined, c)"
  by (simp add: LRUCache_get_def toLowerCase_idem)

lemma fetch_miss_unregistered:
  assumes "enabled s" and "u \<noteq> []"
    and "fst (LRUCache_get (rankCache s) (toLowerCase u) now) = Undefined"
    and "map_of (pendingRequests s) (toLowerCase u) = None"
  shows "fetchRankData s u now =
           (Pending (nextPromise s),
            s\<lparr>rankCache := snd (LRUCache_get (rankCache s) (toLowerCase u) now),
              isLoading := True,
              network := network s @ [API_BASE_URL @ ''/'' @ toLowerCase u],
              requests := requests s @ [(nextPromise s, Request (toLowerCase u) AwaitingResponse)],
              pendingRequests := AList.update (toLowerCase u) (nextPromise s) (pendingRequests s),
              nextPromise := Suc (nextPromise s)\<rparr>)"
  by (simp add: fetchRankData_unfold [OF assms(1,2)] assms(3,4))

lemma fetch_miss_registered:
  assumes "enabled s" and "u \<noteq> []"
    and "fst (LRUCache_get (rankCache s) (toLowerCase u) now) = Undefined"
    and "map_of (pendingRequests s) (toLowerCase u) = Some p"
  shows "fetchRankData s u now =
           (Pending p, s\<lparr>rankCache := snd (LRUCache_get (rankCache s) (toLowerCase u) now)\<rparr>)"
  by (simp add: fetchRankData_unfold [OF assms(1,2)] assms(3,4))


lemma fetch_after_soft_failure:
  assumes "enabled s" and "u \<noteq> []"
    and "map_of (cache (rankCache s)) (toLowerCase u) = None"
  shows "fst (fetchRankData (settle s p (toLowerCase u) None) u now) = Pending (nextPromise s)"
    and "network (snd (fetchRankData (settle s p (toLowerCase u) None) u now))
           = network s @ [API_BASE_URL @ ''/'' @ toLowerCase u]"
proof -
  let ?s' = "settle s p (toLowerCase u) None"
  have e: "enabled ?s'" using assms(1) by (simp add: settle_fields)
  have g: "fst (LRUCache_get (rankCache ?s') (toLowerCase u) now) = Undefined"
    using get_absent [OF assms(3)] by (simp add: settle_fields)
  have n: "map_of (pendingRequests ?s') (toLowerCase u) = None"
    by (simp add: settle_fields AList.delete_conv')
  note f = fetch_miss_unregistered [OF e assms(2) g n]
  show "fst (fetchRankData ?s' u now) = Pending (nextPromise s)"
    unfolding f by (simp add: settle_fields)
  show "network (snd (fetchRankData ?s' u now))
           = network s @ [API_BASE_URL @ ''/'' @ toLowerCase u]"
    unfolding f by (simp add: settle_fields)
qed


lemma on_json_rejected_eq:
  assumes "map_of (requests s) p = Some (Request key AwaitingJson)"
  shows "on_json s p JsonRejected now = settle s p key None"
  using assms by (simp add: on_json_def after_json_def)




text \<open>
  The same retry when the lookup waits for the body and \<open>json()\<close> rejects (the timeout
  fires while the body is read, the body is not JSON): the lookup settles with \<open>null\<close>,
  the cache is as it was, and a resolve of the still uncached key issues a new network
  call.
\<close>

lemma rejected_json_retried:
  assumes "map_of (requests s) p = Some (Request (toLowerCase u) AwaitingJson)"
    and "enabled s" and "u \<noteq> []"
  shows "settled (on_json s p JsonRejected now) = settled s @ [(p, None)]
       \<and> rankCache (on_json s p JsonRejected now) = rankCache s
       \<and> (map_of (cache (rankCache s)) (toLowerCase u) = None \<longrightarrow>
             fst (fetchRankData (on_json s p JsonRejected now) u now') = Pending (nextPromise s)
           \<and> network (snd (fetchRankData (on_json s p JsonRejected now) u now'))
               = network s @ [API_BASE_URL @ ''/'' @ toLowerCase u])"
proof -
  note rj = on_json_rejected_eq [OF assms(1)]
  have "map_of (cache (rankCache s)) (toLowerCase u) = None \<longrightarrow>
             fst (fetchRankData (on_json s p JsonRejected now) u now') = Pending (nextPromise s)
           \<and> network (snd (fetchRankData (on_json s p JsonRejected now) u now'))
               = network s @ [API_BASE_URL @ ''/'' @ toLowerCase u]"
    unfolding rj using fetch_after_soft_failure [OF assms(2,3)] by simp
  then show ?thesis by (simp add: rj settle_fields)
qed

lemma rejected_json_retried_example:
  "fst (fetchRankData (on_json awaiting_json 0 JsonRejected 1200) ''FOO'' 1300) = Pending 1
   \<and> cache (rankCache (on_json awaiting_json 0 JsonRejected 1200)) = []"
  using rejected_json_retried [of awaiting_json 0 "''FOO''" 1200 1300]
  by (simp add: awaiting_json_eq char_eval)

section \<open>De-duplication of lookups in flight\<close>

lemma get_after_miss:
  assumes "fst (LRUCache_get c k now) = Undefined"
  shows "LRUCache_get (snd (LRUCache_get c k now)) k now' = (Undefined, snd (LRUCache_get c k now))"
proof (cases "map_of (cache c) (toLowerCase k)")
  case None
  then show ?thesis by (simp add: LRUCache_get_def)
next
  case (Some e)
  then have "snd (LRUCache_get c k now) = c\<lparr>cache := AList.delete (toLowerCase k) (cache c)\<rparr>"
    using assms by (auto simp: LRUCache_get_def Let_def split: if_splits option.splits)
  then show ?thesis by (simp add: LRUCache_get_def AList.delete_conv')
qed


lemma fetchRankData_effect:
  "unchanged s (snd (fetchRankData s u now)) \<or> started (toLowerCase u) s (snd (fetchRankData s u now))"
proof (cases "enabled s \<and> u \<noteq> []")
  case False
  then show ?thesis by (auto simp: fetchRankData_disabled unchanged_def)
next
  case True
  then show ?thesis
    by (auto simp: fetchRankData_unfold Let_def unchanged_def started_def
             split: js.splits option.splits)
qed

lemma getOrFetchBadge_effect:
  "unchanged s (getOrFetchBadge s u now) \<or> started (toLowerCase u) s (getOrFetchBadge s u now)"
proof (cases "enabled s \<and> u \<noteq> []")
  case False
  then show ?thesis by (auto simp: getOrFetchBadge_def unchanged_def)
next
  case True
  let ?s1 = "s\<lparr>rankCache := snd (LRUCache_get (rankCache s) (toLowerCase u) now)\<rparr>"
  have e: "unchanged ?s1 (snd (fetchRankData ?s1 u now))
           \<or> started (toLowerCase u) ?s1 (snd (fetchRankData ?s1 u now))"
    by (rule fetchRankData_effect)
  show ?thesis
    using True e
    by (auto simp: getOrFetchBadge_def Let_def split_beta unchanged_def started_def
             split: js.splits fetch_result.splits prod.splits)
qed

lemma settle_finished:
  "map_of (requests s) p = Some (Request k st) \<Longrightarrow> requests s0 = requests s \<Longrightarrow>
   pendingRequests s0 = pendingRequests s \<Longrightarrow> nextPromise s0 = nextPromise s \<Longrightarrow>
   finished p k s (settle s0 p k r)"
  by (auto simp: finished_def settle_fields)

lemma on_response_effect:
  "unchanged s (on_response s p status now)
   \<or> (\<exists>k. finished p k s (on_response s p status now))
   \<or> (\<exists>k. advanced p k s (on_response s p status now))"
proof (cases "map_of (requests s) p")
  case None
  then show ?thesis by (simp add: on_response_def unchanged_def)
next
  case (Some rq)
  obtain k st where rq: "rq = Request k st" by (cases rq)
  show ?thesis
  proof (cases st)
    case AwaitingJson
    then show ?thesis using Some rq by (simp add: on_response_def unchanged_def)
  next
    case AwaitingResponse
    then have m: "map_of (requests s) p = Some (Request k AwaitingResponse)" using Some rq by simp
    consider "status = 404" | "status \<noteq> 404" "\<not> (200 \<le> status \<and> status \<le> 299)"
      | "200 \<le> status \<and> status \<le> 299" by auto
    then show ?thesis
    proof cases
      case 1
      then show ?thesis
        using settle_finished [OF m, of "s\<lparr>rankCache := LRUCache_set (rankCache s) k None now\<rparr>"]
        by (auto simp: on_response_404_eq [OF m])
    next
      case 2
      then show ?thesis
        using settle_finished [OF m, of s] by (auto simp: on_response_soft_eq [OF m])
    next
      case 3
      then show ?thesis
        using m by (auto simp: on_response_ok_eq [OF m] advanced_def)
    qed
  qed
qed

lemma on_fetch_error_effect:
  "unchanged s (on_fetch_error s p) \<or> (\<exists>k. finished p k s (on_fetch_error s p))"
proof (cases "map_of (requests s) p")
  case None
  then show ?thesis by (simp add: on_fetch_error_def unchanged_def)
next
  case (Some rq)
  obtain k st where rq: "rq = Request k st" by (cases rq)
  show ?thesis
  proof (cases st)
    case AwaitingJson
    then show ?thesis using Some rq by (simp add: on_fetch_error_def unchanged_def)
  next
    case AwaitingResponse
    then have m: "map_of (requests s) p = Some (Request k AwaitingResponse)" using Some rq by simp
    show ?thesis using settle_finished [OF m, of s] by (auto simp: on_fetch_error_eq [OF m])
  qed
qed

lemma on_json_effect:
  "unchanged s (on_json s p outcome now) \<or> (\<exists>k. finished p k s (on_json s p outcome now))"
proof (cases "map_of (requests s) p")
  case None
  then show ?thesis by (simp add: on_json_def unchanged_def)
next
  case (Some rq)
  obtain k st where rq: "rq = Request k st" by (cases rq)
  show ?thesis
  proof (cases st)
    case AwaitingResponse
    then show ?thesis using Some rq by (simp add: on_json_def unchanged_def)
  next
    case AwaitingJson
    then have m: "map_of (requests s) p = Some (Request k AwaitingJson)" using Some rq by simp
    show ?thesis
      using settle_finished [OF m,
              of "s\<lparr>rankCache := snd (after_json (rankCache s) k outcome now)\<rparr>"]
      by (auto simp: on_json_eq [OF m])
  qed
qed

lemma set_alist_update:
  "(p', x) \<in> set (AList.update p v al) \<Longrightarrow> (p' = p \<and> x = v) \<or> (p', x) \<in> set al"
  by (induction al) (auto split: if_splits)

lemma set_alist_delete:
  "(p', x) \<in> set (AList.delete p al) \<longleftrightarrow> p' \<noteq> p \<and> (p', x) \<in> set al"
  by (auto simp: AList.delete_eq)

lemma registered_unchanged: "registered s \<Longrightarrow> unchanged s s' \<Longrightarrow> registered s'"
  by (simp add: registered_def unchanged_def)

lemma registered_started:
  assumes "registered s" and "started k s s'"
  shows "registered s'"
proof -
  let ?n = "nextPromise s"
  have none: "map_of (pendingRequests s) k = None"
    and rq: "requests s' = requests s @ [(?n, Request k AwaitingResponse)]"
    and pd: "pendingRequests s' = AList.update k ?n (pendingRequests s)"
    and nx: "nextPromise s' = Suc ?n"
    using assms(2) by (simp_all add: started_def)
  have old: "map_of (pendingRequests s) (request_key r) = Some p \<and> p < ?n"
    if "(p, r) \<in> set (requests s)" for p r
    using assms(1) that by (auto simp: registered_def)
  have 1: "map_of (pendingRequests s') (request_key r) = Some p \<and> p < nextPromise s'"
    if "(p, r) \<in> set (requests s')" for p r
  proof (cases "(p, r) \<in> set (requests s)")
    case True
    then have o: "map_of (pendingRequests s) (request_key r) = Some p" "p < ?n"
      using old by auto
    then have "request_key r \<noteq> k" using none by auto
    then show ?thesis using o by (simp add: pd nx AList.update_conv')
  next
    case False
    then have "p = ?n" "r = Request k AwaitingResponse" using that rq by auto
    then show ?thesis by (simp add: pd nx AList.update_conv')
  qed
  have "?n \<notin> fst ` set (requests s)" using old by force
  then have 2: "distinct (map fst (requests s'))"
    using assms(1) by (simp add: rq registered_def)
  show ?thesis unfolding registered_def using 1 2 by auto
qed

lemma registered_finished:
  assumes "registered s" and "finished p k s s'"
  shows "registered s'"
proof -
  obtain st where m: "map_of (requests s) p = Some (Request k st)"
    using assms(2) by (auto simp: finished_def)
  have rq: "requests s' = AList.delete p (requests s)"
    and pd: "pendingRequests s' = AList.delete k (pendingRequests s)"
    and nx: "nextPromise s' = nextPromise s"
    using assms(2) by (simp_all add: finished_def)
  have old: "map_of (pendingRequests s) (request_key r) = Some q \<and> q < nextPromise s"
    if "(q, r) \<in> set (requests s)" for q r
    using assms(1) that by (auto simp: registered_def)
  have "(p, Request k st) \<in> set (requests s)" using m by (rule map_of_SomeD)
  then have pk: "map_of (pendingRequests s) k = Some p" using old by fastforce
  have 1: "map_of (pendingRequests s') (request_key r) = Some q \<and> q < nextPromise s'"
    if "(q, r) \<in> set (requests s')" for q r
  proof -
    have q: "q \<noteq> p" "(q, r) \<in> set (requests s)" using that by (simp_all add: rq set_alist_delete)
    then have o: "map_of (pendingRequests s) (request_key r) = Some q" "q < nextPromise s"
      using old by auto
    then have "request_key r \<noteq> k" using pk q(1) by auto
    then show ?thesis using o by (simp add: pd nx)
  qed
  have 2: "distinct (map fst (requests s'))"
    using assms(1) by (simp add: rq registered_def AList.distinct_delete)
  show ?thesis unfolding registered_def using 1 2 by auto
qed

lemma registered_advanced:
  assumes "registered s" and "advanced p k s s'"
  shows "registered s'"
proof -
  have m: "map_of (requests s) p = Some (Request k AwaitingResponse)"
    and rq: "requests s' = AList.update p (Request k AwaitingJson) (requests s)"
    and pd: "pendingRequests s' = pendingRequests s"
    and nx: "nextPromise s' = nextPromise s"
    using assms(2) by (simp_all add: advanced_def)
  have old: "map_of (pendingRequests s) (request_key r) = Some q \<and> q < nextPromise s"
    if "(q, r) \<in> set (requests s)" for q r
    using assms(1) that by (auto simp: registered_def)
  have "(p, Request k AwaitingResponse) \<in> set (requests s)" using m by (rule map_of_SomeD)
  then have pk: "map_of (pendingRequests s) k = Some p \<and> p < nextPromise s"
    using old by fastforce
  have 1: "map_of (pendingRequests s') (request_key r) = Some q \<and> q < nextPromise s'"
    if "(q, r) \<in> set (requests s')" for q r
    using set_alist_update [of q r p "Request k AwaitingJson" "requests s"] that old pk
    by (auto simp: rq pd nx)
  have 2: "distinct (map fst (requests s'))"
    using assms(1) by (simp add: rq registered_def AList.distinct_update)
  show ?thesis unfolding registered_def using 1 2 by auto
qed

lemma registered_step:
  assumes "registered s" and "ev \<noteq> CallClearCache"
  shows "registered (step s ev)"
proof (cases ev)
  case (CallFetchRankData u now)
  then show ?thesis
    using fetchRankData_effect [of s u now] registered_unchanged [OF assms(1)]
      registered_started [OF assms(1)]
    by auto
next
  case (CallGetOrFetchBadge u now)
  then show ?thesis
    using getOrFetchBadge_effect [of s u now] registered_unchanged [OF assms(1)]
      registered_started [OF assms(1)]
    by auto
next
  case (CallGetCachedRankData u now)
  have "unchanged s (snd (getCachedRankData s u now))"
    by (simp add: getCachedRankData_def unchanged_def split_beta Let_def)
  then show ?thesis using CallGetCachedRankData registered_unchanged [OF assms(1)] by simp
next
  case CallClearCache
  then show ?thesis using assms(2) by simp
next
  case (ConfigEnabled b)
  then show ?thesis using assms(1) by (simp add: registered_def)
next
  case (Response p status now)
  then show ?thesis
    using on_response_effect [of s p status now] registered_unchanged [OF assms(1)]
      registered_finished [OF assms(1)] registered_advanced [OF assms(1)]
    by auto
next
  case (FetchError p)
  then show ?thesis
    using on_fetch_error_effect [of s p] registered_unchanged [OF assms(1)]
      registered_finished [OF assms(1)]
    by auto
next
  case (Json p outcome now)
  then show ?thesis
    using on_json_effect [of s p outcome now] registered_unchanged [OF assms(1)]
      registered_finished [OF assms(1)]
    by auto
qed

lemma registered_run:
  "registered s \<Longrightarrow> CallClearCache \<notin> set es \<Longrightarrow> registered (run s es)"
  unfolding run_def
proof (induction es arbitrary: s)
  case Nil
  then show ?case by simp
next
  case (Cons ev es)
  have "ev \<noteq> CallClearCache" using Cons.prems(2) by auto
  with Cons.prems(1) have "registered (step s ev)" by (rule registered_step)
  moreover have "CallClearCache \<notin> set es" using Cons.prems(2) by simp
  ultimately show ?case using Cons.IH by simp
qed

lemma registered_initial: "registered (initial e)"
  by (simp add: registered_def initial_def)

text \<open>The registry never holds a key twice.\<close>

lemma distinct_pending_step:
  assumes "distinct (map fst (pendingRequests s))"
  shows "distinct (map fst (pendingRequests (step s ev)))"
proof -
  have u: "distinct (map fst (pendingRequests s'))" if "unchanged s s'" for s'
    using that assms by (simp add: unchanged_def)
  have st: "distinct (map fst (pendingRequests s'))" if "started k s s'" for s' k
    using that assms by (simp add: started_def AList.distinct_update)
  have f: "distinct (map fst (pendingRequests s'))" if "finished p k s s'" for s' p k
    using that assms by (simp add: finished_def AList.distinct_delete)
  have a: "distinct (map fst (pendingRequests s'))" if "advanced p k s s'" for s' p k
    using that assms by (simp add: advanced_def)
  show ?thesis
  proof (cases ev)
    case (CallFetchRankData u' now)
    then show ?thesis using fetchRankData_effect [of s u' now] u st by auto
  next
    case (CallGetOrFetchBadge u' now)
    then show ?thesis using getOrFetchBadge_effect [of s u' now] u st by auto
  next
    case (CallGetCachedRankData u' now)
    then show ?thesis using assms by (simp add: getCachedRankData_def split_beta Let_def)
  next
    case CallClearCache
    then show ?thesis by (simp add: clearCache_def)
  next
    case (ConfigEnabled b)
    then show ?thesis using assms by simp
  next
    case (Response p status now)
    then show ?thesis using on_response_effect [of s p status now] u f a by auto
  next
    case (FetchError p)
    then show ?thesis using on_fetch_error_effect [of s p] u f by auto
  next
    case (Json p outcome now)
    then show ?thesis using on_json_effect [of s p outcome now] u f by auto
  qed
qed

lemma distinct_pending_run:
  "distinct (map fst (pendingRequests s)) \<Longrightarrow> distinct (map fst (pendingRequests (run s es)))"
  unfolding run_def
  by (induction es arbitrary: s) (simp_all add: distinct_pending_step)

lemma toLowerCase_Nil: "toLowerCase u = [] \<longleftrightarrow> u = []"
  by (simp add: toLowerCase_def)

lemma settle_removes:
  "map_of (pendingRequests (settle s p k r)) k = None
   \<and> map_of (requests (settle s p k r)) p = None
   \<and> map fst (settled (settle s p k r)) = map fst (settled s) @ [p]
   \<and> \<not> isLoading (settle s p k r)"
  by (simp add: settle_fields AList.delete_conv')

text \<open>
  C1, amended. The module is enabled and the key of \<open>u\<close> is uncached. When no lookup is
  registered for the key, \<open>fetchRankData\<close> issues exactly one network call and registers
  its promise, and a second call for the same normalized username (at any time while the
  state is the same) returns that promise and changes nothing. In any state where the
  registry holds a promise for the key, \<open>fetchRankData\<close> returns that promise and
  issues no network call, so both calls resolve to the value of the one promise. As long
  as \<open>clearCache\<close> was not called, every lookup in flight is the one registered for its
  key; \<open>clearCache\<close> empties the registry, and a call after it starts a new lookup. The
  registry never holds two entries for a key. Whenever a lookup settles (404, another
  error status, a rejected \<open>fetch\<close> by exception, abort or timeout, and every outcome
  of reading the body), the entry of its key is removed and \<open>isLoading\<close> is reset.
\<close>

theorem in_flight_deduplication:
  assumes "enabled s" and "u \<noteq> []" and "toLowerCase u' = toLowerCase u"
    and "fst (LRUCache_get (rankCache s) (toLowerCase u) now) = Undefined"
  shows
   "(map_of (pendingRequests s) (toLowerCase u) = None \<longrightarrow>
       fst (fetchRankData s u now) = Pending (nextPromise s)
     \<and> network (snd (fetchRankData s u now)) = network s @ [API_BASE_URL @ ''/'' @ toLowerCase u]
     \<and> map_of (pendingRequests (snd (fetchRankData s u now))) (toLowerCase u)
         = Some (nextPromise s)
     \<and> fetchRankData (snd (fetchRankData s u now)) u' now'
         = (Pending (nextPromise s), snd (fetchRankData s u now)))
    \<and> (map_of (pendingRequests s) (toLowerCase u) = Some p \<longrightarrow>
       fst (fetchRankData s u' now) = Pending p
     \<and> network (snd (fetchRankData s u' now)) = network s
     \<and> requests (snd (fetchRankData s u' now)) = requests s
     \<and> pendingRequests (snd (fetchRankData s u' now)) = pendingRequests s)
    \<and> (s = run (initial e) es \<and> CallClearCache \<notin> set es
        \<and> (p, Request (toLowerCase u) st) \<in> set (requests s) \<longrightarrow>
       map_of (pendingRequests s) (toLowerCase u) = Some p)
    \<and> distinct (map fst (pendingRequests (run (initial e) es)))
    \<and> (map_of (requests s) q = Some (Request k AwaitingResponse)
        \<and> (status = 404 \<or> \<not> (200 \<le> status \<and> status \<le> 299)) \<longrightarrow>
       map_of (pendingRequests (on_response s q status t)) k = None
     \<and> map_of (requests (on_response s q status t)) q = None
     \<and> map fst (settled (on_response s q status t)) = map fst (settled s) @ [q]
     \<and> \<not> isLoading (on_response s q status t))
    \<and> (map_of (requests s) q = Some (Request k AwaitingResponse) \<longrightarrow>
       map_of (pendingRequests (on_fetch_error s q)) k = None
     \<and> map_of (requests (on_fetch_error s q)) q = None
     \<and> map fst (settled (on_fetch_error s q)) = map fst (settled s) @ [q]
     \<and> \<not> isLoading (on_fetch_error s q))
    \<and> (map_of (requests s) q = Some (Request k AwaitingJson) \<longrightarrow>
       map_of (pendingRequests (on_json s q outcome t)) k = None
     \<and> map_of (requests (on_json s q outcome t)) q = None
     \<and> map fst (settled (on_json s q outcome t)) = map fst (settled s) @ [q]
     \<and> \<not> isLoading (on_json s q outcome t))"
proof -
  have u': "u' \<noteq> []" using assms(2,3) by (metis toLowerCase_Nil)
  have miss': "fst (LRUCache_get (rankCache s) (toLowerCase u') now) = Undefined"
    using assms(3,4) by simp
  have A1: "fst (fetchRankData s u now) = Pending (nextPromise s)
     \<and> network (snd (fetchRankData s u now)) = network s @ [API_BASE_URL @ ''/'' @ toLowerCase u]
     \<and> map_of (pendingRequests (snd (fetchRankData s u now))) (toLowerCase u)
         = Some (nextPromise s)
     \<and> fetchRankData (snd (fetchRankData s u now)) u' now'
         = (Pending (nextPromise s), snd (fetchRankData s u now))"
    if none: "map_of (pendingRequests s) (toLowerCase u) = None"
  proof -
    let ?s1 = "snd (fetchRankData s u now)"
    note f = fetch_miss_unregistered [OF assms(1,2,4) none]
    have e1: "enabled ?s1" using assms(1) by (simp add: f)
    have c1: "rankCache ?s1 = snd (LRUCache_get (rankCache s) (toLowerCase u) now)"
      by (simp add: f)
    have g1: "LRUCache_get (rankCache ?s1) (toLowerCase u') now' = (Undefined, rankCache ?s1)"
      unfolding c1 assms(3) using get_after_miss [OF assms(4)] .
    have p1: "map_of (pendingRequests ?s1) (toLowerCase u') = Some (nextPromise s)"
      by (simp add: f assms(3) AList.update_conv')
    have "fetchRankData ?s1 u' now' = (Pending (nextPromise s), ?s1\<lparr>rankCache := rankCache ?s1\<rparr>)"
      using fetch_miss_registered [OF e1 u' _ p1, of now'] g1 by simp
    then have "fetchRankData ?s1 u' now' = (Pending (nextPromise s), ?s1)" by simp
    moreover have "fst (fetchRankData s u now) = Pending (nextPromise s)" by (simp add: f)
    moreover have "network ?s1 = network s @ [API_BASE_URL @ ''/'' @ toLowerCase u]"
      by (simp add: f)
    moreover have "map_of (pendingRequests ?s1) (toLowerCase u) = Some (nextPromise s)"
      using p1 assms(3) by simp
    ultimately show ?thesis by simp
  qed
  have A2: "fst (fetchRankData s u' now) = Pending p
     \<and> network (snd (fetchRankData s u' now)) = network s
     \<and> requests (snd (fetchRankData s u' now)) = requests s
     \<and> pendingRequests (snd (fetchRankData s u' now)) = pendingRequests s"
    if some: "map_of (pendingRequests s) (toLowerCase u) = Some p"
  proof -
    have "map_of (pendingRequests s) (toLowerCase u') = Some p" using some assms(3) by simp
    from fetch_miss_registered [OF assms(1) u' miss' this] show ?thesis by simp
  qed
  have D: "map_of (pendingRequests s) (toLowerCase u) = Some p"
    if "s = run (initial e) es \<and> CallClearCache \<notin> set es
        \<and> (p, Request (toLowerCase u) st) \<in> set (requests s)"
  proof -
    have "registered s" using that registered_run [OF registered_initial, of es e] by simp
    then show ?thesis using that unfolding registered_def by fastforce
  qed
  have B: "distinct (map fst (pendingRequests (run (initial e) es)))"
    by (rule distinct_pending_run) (simp add: initial_def)
  have C1: "map_of (pendingRequests (on_response s q status t)) k = None
     \<and> map_of (requests (on_response s q status t)) q = None
     \<and> map fst (settled (on_response s q status t)) = map fst (settled s) @ [q]
     \<and> \<not> isLoading (on_response s q status t)"
    if "map_of (requests s) q = Some (Request k AwaitingResponse)
        \<and> (status = 404 \<or> \<not> (200 \<le> status \<and> status \<le> 299))"
  proof (cases "status = 404")
    case True
    have m: "map_of (requests s) q = Some (Request k AwaitingResponse)" using that by simp
    show ?thesis
      unfolding True on_response_404_eq [OF m]
      using settle_removes [of "s\<lparr>rankCache := LRUCache_set (rankCache s) k None t\<rparr>" q k None]
      by simp
  next
    case False
    have m: "map_of (requests s) q = Some (Request k AwaitingResponse)" using that by simp
    have n: "\<not> (200 \<le> status \<and> status \<le> 299)" using that False by simp
    show ?thesis
      unfolding on_response_soft_eq [OF m False n] using settle_removes [of s q k None] by simp
  qed
  have C2: "map_of (pendingRequests (on_fetch_error s q)) k = None
     \<and> map_of (requests (on_fetch_error s q)) q = None
     \<and> map fst (settled (on_fetch_error s q)) = map fst (settled s) @ [q]
     \<and> \<not> isLoading (on_fetch_error s q)"
    if m: "map_of (requests s) q = Some (Request k AwaitingResponse)"
    unfolding on_fetch_error_eq [OF m] using settle_removes [of s q k None] by simp
  have C3: "map_of (pendingRequests (on_json s q outcome t)) k = None
     \<and> map_of (requests (on_json s q outcome t)) q = None
     \<and> map fst (settled (on_json s q outcome t)) = map fst (settled s) @ [q]
     \<and> \<not> isLoading (on_json s q outcome t)"
    if m: "map_of (requests s) q = Some (Request k AwaitingJson)"
    unfolding on_json_eq [OF m]
    using settle_removes [of "s\<lparr>rankCache := snd (after_json (rankCache s) k outcome t)\<rparr>" q k
            "fst (after_json (rankCache s) k outcome t)"]
    by simp
  show ?thesis using A1 A2 D B C1 C2 C3 by blast
qed

theorem in_flight_deduplication_witness:
  "fst (fetchRankData (initial True) ''Foo'' 1000) = Pending 0
   \<and> snd (fetchRankData (initial True) ''Foo'' 1000) = awaiting_response
   \<and> network awaiting_response
       = [''https://eloward-ranks.unleashai.workers.dev/api/ranks/lol/foo'']
   \<and> fetchRankData awaiting_response ''FOO'' 1001 = (Pending 0, awaiting_response)
   \<and> map_of (pendingRequests awaiting_response) ''foo'' = Some 0
   \<and> map_of (pendingRequests (on_response awaiting_response 0 404 1100)) ''foo'' = None
   \<and> map_of (pendingRequests (on_response awaiting_response 0 503 1100)) ''foo'' = None
   \<and> map_of (pendingRequests (on_fetch_error awaiting_response 0)) ''foo'' = None
   \<and> map_of (pendingRequests (on_json awaiting_json 0 JsonRejected 1200)) ''foo'' = None
   \<and> map_of (pendingRequests (on_json awaiting_json 0 (JsonValue body_gold) 1200)) ''foo''
       = None"
  using
    in_flight_deduplication [where s = "initial True" and u = "''Foo''" and u' = "''FOO''"
      and now = 1000 and now' = 1001 and p = 0 and e = True and es = "[]"
      and st = AwaitingResponse and q = 0 and k = "''foo''" and status = 404 and t = 1100
      and outcome = JsonRejected]
    in_flight_deduplication [where s = awaiting_response and u = "''Foo''" and u' = "''FOO''"
      and now = 1001 and now' = 1001 and p = 0 and e = True
      and es = "[CallFetchRankData ''Foo'' 1000]"
      and st = AwaitingResponse and q = 0 and k = "''foo''" and status = 404 and t = 1100
      and outcome = JsonRejected]
    in_flight_deduplication [where s = awaiting_response and u = "''Foo''" and u' = "''FOO''"
      and now = 1001 and now' = 1001 and p = 0 and e = True
      and es = "[CallFetchRankData ''Foo'' 1000]"
      and st = AwaitingResponse and q = 0 and k = "''foo''" and status = 503 and t = 1100
      and outcome = JsonRejected]
    in_flight_deduplication [where s = awaiting_json and u = "''Foo''" and u' = "''FOO''"
      and now = 1001 and now' = 1001 and p = 0 and e = True
      and es = "[CallFetchRankData ''Foo'' 1000, Response 0 200 1100]"
      and st = AwaitingJson and q = 0 and k = "''foo''" and status = 404 and t = 1200
      and outcome = JsonRejected]
    in_flight_deduplication [where s = awaiting_json and u = "''Foo''" and u' = "''FOO''"
      and now = 1001 and now' = 1001 and p = 0 and e = True
      and es = "[CallFetchRankData ''Foo'' 1000, Response 0 200 1100]"
      and st = AwaitingJson and q = 0 and k = "''foo''" and status = 404 and t = 1200
      and outcome = "JsonValue body_gold"]
  by (simp add: awaiting_response_eq awaiting_json_eq initial_def fetchRankData_def
        API_BASE_URL_def MAX_CACHE_SIZE_def cache_eval char_eval)


theorem reset_breaks_deduplication_counterexample:
  "map_of (requests (run (initial True) [CallFetchRankData ''Foo'' 1000, CallClearCache])) 0
     = Some (Request ''foo'' AwaitingResponse)
   \<and> fst (LRUCache_get (rankCache (run (initial True)
            [CallFetchRankData ''Foo'' 1000, CallClearCache])) ''foo'' 1001) = Undefined
   \<and> fst (fetchRankData (run (initial True) [CallFetchRankData ''Foo'' 1000, CallClearCache])
           ''Foo'' 1001) = Pending 1
   \<and> network (snd (fetchRankData (run (initial True)
            [CallFetchRankData ''Foo'' 1000, CallClearCache]) ''Foo'' 1001))
       = [''https://eloward-ranks.unleashai.workers.dev/api/ranks/lol/foo'',
          ''https://eloward-ranks.unleashai.workers.dev/api/ranks/lol/foo'']"
  by (simp add: state_eval cache_eval char_eval)


section \<open>The secondary operation\<close>

lemma getOrFetchBadge_unfold:
  assumes "enabled s" and "u \<noteq> []"
  shows "getOrFetchBadge s u now =
     (let s1 = s\<lparr>rankCache := snd (LRUCache_get (rankCache s) (toLowerCase u) now)\<rparr> in
      case fst (LRUCache_get (rankCache s) (toLowerCase u) now) of
        Null \<Rightarrow> s1\<lparr>userBadges := (userBadges s)(toLowerCase u \<mapsto> None)\<rparr>
      | Val d \<Rightarrow> s1\<lparr>userBadges := (userBadges s)(toLowerCase u \<mapsto> getRankBadge d)\<rparr>
      | Undefined \<Rightarrow>
          if map_of (pendingRequests s) (toLowerCase u) \<noteq> None then s1
          else (case fetchRankData s1 u now of
                  (Immediate rankData, s2) \<Rightarrow>
                    s2\<lparr>userBadges := (userBadges s2)(toLowerCase u \<mapsto> project rankData)\<rparr>
                | (Pending p, s2) \<Rightarrow> s2\<lparr>callbacks := callbacks s2 @ [(p, toLowerCase u)]\<rparr>))"
  using assms by (simp add: getOrFetchBadge_def Let_def split_beta split: js.splits)

lemma foldl_store_member:
  "k \<in> set ks \<Longrightarrow> foldl (\<lambda>m k. m(k \<mapsto> v)) m ks k = Some v"
  by (induction ks rule: rev_induct) auto

lemma settle_runs_callbacks:
  assumes "(p, k) \<in> set (callbacks s)"
  shows "userBadges (settle s p key r) k = Some (project r)"
proof -
  have "k \<in> set (map snd (filter (\<lambda>(q, k). q = p) (callbacks s)))"
    using assms by force
  then show ?thesis by (simp add: settle_def foldl_store_member)
qed


text \<open>
  C6, amended. When the module is disabled or the username is empty,
  \<open>getOrFetchBadge\<close> does nothing (the store is not written). When the key is cached, or
  no lookup is registered for it, \<open>getOrFetchBadge\<close> is the primary resolve operation
  followed by the projection of its result into the badge store for the normalized key
  (\<open>resolve_and_project\<close>). When the key is uncached and a lookup is registered for it,
  \<open>getOrFetchBadge\<close> returns after its own look at the registry: the state is that after
  \<open>fetchRankData\<close>, but no callback is attached and the store is not written by this
  call. When it starts the lookup itself it attaches a callback to the new promise, and
  when a promise settles every callback attached to it stores the projected result.
\<close>

theorem getOrFetchBadge_refinement:
  "(\<not> enabled s \<or> u = [] \<longrightarrow> getOrFetchBadge s u now = s)
   \<and> (enabled s \<and> u \<noteq> []
       \<and> (fst (LRUCache_get (rankCache s) (toLowerCase u) now) \<noteq> Undefined
            \<or> map_of (pendingRequests s) (toLowerCase u) = None) \<longrightarrow>
        getOrFetchBadge s u now = resolve_and_project s u now)
   \<and> (enabled s \<and> u \<noteq> []
       \<and> fst (LRUCache_get (rankCache s) (toLowerCase u) now) = Undefined
       \<and> map_of (pendingRequests s) (toLowerCase u) = Some p \<longrightarrow>
        getOrFetchBadge s u now = snd (fetchRankData s u now)
      \<and> callbacks (getOrFetchBadge s u now) = callbacks s
      \<and> userBadges (getOrFetchBadge s u now) = userBadges s)
   \<and> (enabled s \<and> u \<noteq> []
       \<and> fst (LRUCache_get (rankCache s) (toLowerCase u) now) = Undefined
       \<and> map_of (pendingRequests s) (toLowerCase u) = None \<longrightarrow>
        callbacks (getOrFetchBadge s u now) = callbacks s @ [(nextPromise s, toLowerCase u)])
   \<and> ((q, k) \<in> set (callbacks s) \<longrightarrow> userBadges (settle s q key r) k = Some (project r))"
proof (intro conjI impI)
  assume "\<not> enabled s \<or> u = []"
  then show "getOrFetchBadge s u now = s" by (auto simp: getOrFetchBadge_def)
next
  assume a: "enabled s \<and> u \<noteq> []
       \<and> (fst (LRUCache_get (rankCache s) (toLowerCase u) now) \<noteq> Undefined
            \<or> map_of (pendingRequests s) (toLowerCase u) = None)"
  then have e: "enabled s" and n: "u \<noteq> []" by simp_all
  show "getOrFetchBadge s u now = resolve_and_project s u now"
  proof (cases "fst (LRUCache_get (rankCache s) (toLowerCase u) now)")
    case Null
    then show ?thesis
      by (simp add: getOrFetchBadge_unfold [OF e n] resolve_and_project_def
            fetchRankData_unfold [OF e n] project_def)
  next
    case (Val d)
    then show ?thesis
      by (simp add: getOrFetchBadge_unfold [OF e n] resolve_and_project_def
            fetchRankData_unfold [OF e n] project_def)
  next
    case Undefined
    then have none: "map_of (pendingRequests s) (toLowerCase u) = None" using a by simp
    let ?s1 = "s\<lparr>rankCache := snd (LRUCache_get (rankCache s) (toLowerCase u) now)\<rparr>"
    have e1: "enabled ?s1" using e by simp
    have g1: "fst (LRUCache_get (rankCache ?s1) (toLowerCase u) now) = Undefined"
      using get_after_miss [OF Undefined, of now] by simp
    have s1: "snd (LRUCache_get (snd (LRUCache_get (rankCache s) (toLowerCase u) now))
                     (toLowerCase u) now)
              = snd (LRUCache_get (rankCache s) (toLowerCase u) now)"
      using get_after_miss [OF Undefined, of now] by simp
    have n1: "map_of (pendingRequests ?s1) (toLowerCase u) = None" using none by simp
    note f1 = fetch_miss_unregistered [OF e1 n g1 n1]
    note f = fetch_miss_unregistered [OF e n Undefined none]
    show ?thesis
      unfolding resolve_and_project_def f
      by (simp add: getOrFetchBadge_unfold [OF e n] Undefined none f1 s1)
  qed
next
  assume a: "enabled s \<and> u \<noteq> []
       \<and> fst (LRUCache_get (rankCache s) (toLowerCase u) now) = Undefined
       \<and> map_of (pendingRequests s) (toLowerCase u) = Some p"
  then have e: "enabled s" and n: "u \<noteq> []" by simp_all
  have g: "getOrFetchBadge s u now
             = s\<lparr>rankCache := snd (LRUCache_get (rankCache s) (toLowerCase u) now)\<rparr>"
    using a by (simp add: getOrFetchBadge_unfold [OF e n])
  show "getOrFetchBadge s u now = snd (fetchRankData s u now)"
    using a by (simp add: g fetch_miss_registered [OF e n])
  show "callbacks (getOrFetchBadge s u now) = callbacks s" by (simp add: g)
  show "userBadges (getOrFetchBadge s u now) = userBadges s" by (simp add: g)
next
  assume a: "enabled s \<and> u \<noteq> []
       \<and> fst (LRUCache_get (rankCache s) (toLowerCase u) now) = Undefined
       \<and> map_of (pendingRequests s) (toLowerCase u) = None"
  then have e: "enabled s" and n: "u \<noteq> []"
    and miss: "fst (LRUCache_get (rankCache s) (toLowerCase u) now) = Undefined"
    and none: "map_of (pendingRequests s) (toLowerCase u) = None" by simp_all
  let ?s1 = "s\<lparr>rankCache := snd (LRUCache_get (rankCache s) (toLowerCase u) now)\<rparr>"
  have e1: "enabled ?s1" using e by simp
  have g1: "fst (LRUCache_get (rankCache ?s1) (toLowerCase u) now) = Undefined"
    using get_after_miss [OF miss, of now] by simp
  have n1: "map_of (pendingRequests ?s1) (toLowerCase u) = None" using none by simp
  note f1 = fetch_miss_unregistered [OF e1 n g1 n1]
  show "callbacks (getOrFetchBadge s u now) = callbacks s @ [(nextPromise s, toLowerCase u)]"
    by (simp add: getOrFetchBadge_unfold [OF e n] miss none f1)
next
  assume "(q, k) \<in> set (callbacks s)"
  then show "userBadges (settle s q key r) k = Some (project r)"
    by (rule settle_runs_callbacks)
qed

theorem getOrFetchBadge_refinement_witness:
  "getOrFetchBadge (initial True) ''Foo'' 1000 = resolve_and_project (initial True) ''Foo'' 1000
   \<and> callbacks (getOrFetchBadge (initial True) ''Foo'' 1000) = [(0, ''foo'')]
   \<and> userBadges (run (getOrFetchBadge (initial True) ''Foo'' 1000)
         [Response 0 200 1100, Json 0 (JsonValue body_gold) 1200]) ''foo''
       = Some (getRankBadge (rank_of_body ''GOLD'' body_gold))
   \<and> getOrFetchBadge (initial False) ''Foo'' 1000 = initial False
   \<and> getOrFetchBadge awaiting_response ''Foo'' 1050 = awaiting_response"
  using
    getOrFetchBadge_refinement [of "initial True" "''Foo''" 1000 0]
    getOrFetchBadge_refinement [of "initial False" "''Foo''" 1000 0]
    getOrFetchBadge_refinement [of awaiting_response "''Foo''" 1050 0]
  by (simp add: awaiting_response_eq state_eval rank_of_body_def body_gold_def RANK_TIERS_def
        cache_eval char_eval)

theorem getOrFetchBadge_counterexample:
  "userBadges (run (getOrFetchBadge awaiting_response ''foo'' 1050)
       [Response 0 200 1100, Json 0 (JsonValue body_gold) 1200]) ''foo'' = None
   \<and> userBadges (run (resolve_and_project awaiting_response ''foo'' 1050)
       [Response 0 200 1100, Json 0 (JsonValue body_gold) 1200]) ''foo''
     = Some (getRankBadge (rank_of_body ''GOLD'' body_gold))
   \<and> map_option id_badge (getRankBadge (rank_of_body ''GOLD'' body_gold))
     = Some ''eloward-gold-II''"
  by (simp add: awaiting_response_eq state_eval rank_of_body_def body_gold_def RANK_TIERS_def
        getRankBadge_def getImageUrl_def cache_eval char_eval)

section \<open>Recency of an overwritten key\<close>

text \<open>
  How the order of the \<open>Map\<close> moves, at any capacity: a \<open>set\<close> of a new key on a full
  cache removes the first key; a hit of \<open>get\<close> moves the key to the end; a \<open>set\<close> of a
  key that is in the cache leaves every key where it is.
\<close>

lemma set_evicts_first_key:
  assumes "cache c = (fk, fe) # rest" and "fk \<noteq> []"
    and "maxSize c \<le> length (cache c)"
    and "map_of (cache c) (toLowerCase u) = None"
  shows "cache (LRUCache_set c u d t)
           = AList.delete fk (cache c) @ [(toLowerCase u, \<lparr> data = d, timestamp = t \<rparr>)]"
proof -
  have "toLowerCase u \<notin> fst ` set (cache c)"
    using assms(4) by (simp add: map_of_None_iff_keys)
  then have "toLowerCase u \<notin> fst ` set (AList.delete fk (cache c))"
    using AList.dom_delete_subset [of fk "cache c"] by auto
  then have "AList.update (toLowerCase u) \<lparr> data = d, timestamp = t \<rparr> (AList.delete fk (cache c))
               = AList.delete fk (cache c) @ [(toLowerCase u, \<lparr> data = d, timestamp = t \<rparr>)]"
    by (rule alist_update_append)
  moreover have "cache (LRUCache_set c u d t)
      = AList.update (toLowerCase u) \<lparr> data = d, timestamp = t \<rparr> (AList.delete fk (cache c))"
    using assms by (simp add: LRUCache_set_def Let_def)
  ultimately show ?thesis by simp
qed

lemma set_overwrite_keeps_order:
  assumes "map_of (cache c) (toLowerCase u) \<noteq> None"
  shows "map fst (cache (LRUCache_set c u d t)) = map fst (cache c)"
proof -
  have k: "toLowerCase u \<in> fst ` set (cache c)"
    using assms by (simp add: map_of_None_iff_keys)
  have "cache (LRUCache_set c u d t)
          = AList.update (toLowerCase u) \<lparr> data = d, timestamp = t \<rparr> (cache c)"
    using assms by (auto simp: LRUCache_set_def Let_def)
  then show ?thesis using k by (simp add: AList.update_keys)
qed

lemma get_hit_moves_to_end:
  assumes "map_of (cache c) (toLowerCase u) = Some e"
    and "now - timestamp e \<le> NEGATIVE_CACHE_DURATION"
  shows "map fst (cache (snd (LRUCache_get c u now)))
           = removeAll (toLowerCase u) (map fst (cache c)) @ [toLowerCase u]"
  using get_hit_fresh(2) [OF assms] by (simp add: AList.delete_keys)

text \<open>
  At any capacity: when the first key of a full cache is overwritten and a new key is
  stored next, the overwritten key is the one evicted.
\<close>

lemma overwritten_first_key_evicted:
  assumes "cache c = (toLowerCase u, e) # rest" and "u \<noteq> []"
    and "maxSize c \<le> length (cache c)"
    and "map_of (cache c) (toLowerCase k) = None"
  shows "cache (LRUCache_set (LRUCache_set c u d t) k d' t')
           = AList.delete (toLowerCase u) rest @ [(toLowerCase k, \<lparr> data = d', timestamp = t' \<rparr>)]"
proof -
  let ?c1 = "LRUCache_set c u d t"
  have c1: "cache ?c1 = (toLowerCase u, \<lparr> data = d, timestamp = t \<rparr>) # rest"
    using assms(1) by (simp add: LRUCache_set_def Let_def)
  have m1: "maxSize ?c1 = maxSize c" by (simp add: LRUCache_set_def Let_def)
  have ne: "toLowerCase u \<noteq> []" using assms(2) by (simp add: toLowerCase_Nil_iff)
  have kne: "toLowerCase k \<noteq> toLowerCase u" using assms(1,4) by auto
  have full: "maxSize ?c1 \<le> length (cache ?c1)" using assms(1,3) by (simp add: m1 c1)
  have absent: "map_of (cache ?c1) (toLowerCase k) = None"
    using assms(1,4) kne by (simp add: c1)
  show ?thesis
    using set_evicts_first_key [OF c1 ne full absent, of d' t'] by (simp add: c1)
qed

text \<open>
  C3. The least recently touched key is not the one evicted when a \<open>set\<close> has
  overwritten a key. After \<open>set\<close> of a, b, a the recency order by \<open>get\<close> and \<open>set\<close>
  activity is b, a; the cache order is still a, b, with the newer time stamp on a. On a
  cache of capacity 2 the next \<open>set\<close> of c evicts a, the key touched last, and keeps
  b. The module reaches such an
  order: with \<open>clearCache\<close> between two lookups of a, both lookups are in flight, and
  when the responses arrive in the order a, b, a the second \<open>set\<close> of a overwrites, with
  the newest time stamp on the first key.
\<close>

theorem overwriting_set_keeps_position:
  "recency [Put ''a'' None 0, Put ''b'' None 1, Put ''a'' None 2] = [''b'', ''a'']
   \<and> cache (foldl apply_op (LRUCache_new 2)
         [Put ''a'' None 0, Put ''b'' None 1, Put ''a'' None 2])
       = [(''a'', \<lparr> data = None, timestamp = 2 \<rparr>), (''b'', \<lparr> data = None, timestamp = 1 \<rparr>)]
   \<and> map fst (cache (foldl apply_op (LRUCache_new 2)
         [Put ''a'' None 0, Put ''b'' None 1, Put ''a'' None 2, Put ''c'' None 3]))
       = [''b'', ''c'']
   \<and> fst (LRUCache_get (foldl apply_op (LRUCache_new 2)
         [Put ''a'' None 0, Put ''b'' None 1, Put ''a'' None 2, Put ''c'' None 3]) ''a'' 4)
       = Undefined
   \<and> fst (LRUCache_get (foldl apply_op (LRUCache_new 2)
         [Put ''a'' None 0, Put ''b'' None 1, Put ''a'' None 2, Put ''c'' None 3]) ''b'' 4)
       = Null
   \<and> cache (rankCache (run (initial True)
         [CallFetchRankData ''a'' 1000, CallClearCache, CallFetchRankData ''a'' 1001,
          CallFetchRankData ''b'' 1002, Response 0 404 1100, Response 2 404 1200,
          Response 1 404 1300]))
       = [(''a'', \<lparr> data = None, timestamp = 1300 \<rparr>),
          (''b'', \<lparr> data = None, timestamp = 1200 \<rparr>)]"
  by (simp add: recency_def activity_def state_eval cache_eval char_eval)

end
